theory Spec2Isabelle
  imports Main "HOL-Library.Word"
begin

unbundle bit_operations_syntax

section \<open>Machine types\<close>

text \<open>
  \<open>uint8_t\<close> and \<open>uint16_t\<close> are words of 8 and 16 bits. \<open>int16_t\<close> is a
  16-bit word too; its value is read with \<open>sint\<close> (two's complement). C++ \<open>char\<close> is
  HOL's \<open>char\<close>, a byte; \<open>NUL\<close> is the string terminator.
\<close>

type_synonym u8 = "8 word"
type_synonym u16 = "16 word"
type_synonym i16 = "16 word"

definition NUL :: char where
  "NUL = CHR 0x00"

text \<open>The cast \<open>(char)response[i]\<close>: the same byte, as a character.\<close>

definition to_char :: "u8 \<Rightarrow> char" where
  "to_char b = char_of (unat b)"

section \<open>Command table (namespace MakitaLXT of BatteryOBI.h)\<close>

definition READ_MSG_CMD :: "u8 list" where "READ_MSG_CMD = [0xAA, 0x00]"
definition READ_MSG_LEN :: nat where "READ_MSG_LEN = 2"
definition READ_MSG_RESPONSE_LEN :: nat where "READ_MSG_RESPONSE_LEN = 40"

definition MODEL_CMD :: "u8 list" where "MODEL_CMD = [0xDC, 0x0C]"
definition MODEL_CMD_LEN :: nat where "MODEL_CMD_LEN = 2"
definition MODEL_RESPONSE_LEN :: nat where "MODEL_RESPONSE_LEN = 16"

definition READ_DATA_CMD :: "u8 list" where "READ_DATA_CMD = [0xD7, 0x00, 0x00, 0xFF]"
definition READ_DATA_LEN :: nat where "READ_DATA_LEN = 4"
definition READ_DATA_RESPONSE_LEN :: nat where "READ_DATA_RESPONSE_LEN = 29"

definition TESTMODE_CMD :: "u8 list" where "TESTMODE_CMD = [0xD9, 0x96, 0xA5]"
definition TESTMODE_LEN :: nat where "TESTMODE_LEN = 3"
definition LEDS_ON_CMD :: "u8 list" where "LEDS_ON_CMD = [0xDA, 0x31]"
definition LEDS_ON_LEN :: nat where "LEDS_ON_LEN = 2"
definition LEDS_OFF_CMD :: "u8 list" where "LEDS_OFF_CMD = [0xDA, 0x34]"
definition LEDS_OFF_LEN :: nat where "LEDS_OFF_LEN = 2"

definition RESET_ERROR_CMD :: "u8 list" where "RESET_ERROR_CMD = [0xDA, 0x04]"
definition RESET_ERROR_LEN :: nat where "RESET_ERROR_LEN = 2"

section \<open>struct BatteryData\<close>

record BatteryData =
  model :: "char list"
  romId :: "char list"
  chargeCount :: u16
  isLocked :: bool
  statusCode :: u8
  packVoltage :: u16
  cell1Voltage :: u16
  cell2Voltage :: u16
  cell3Voltage :: u16
  cell4Voltage :: u16
  cell5Voltage :: u16
  tempSensor1 :: i16
  tempSensor2 :: i16
  manufacturingYear :: u8
  manufacturingMonth :: u8
  manufacturingDay :: u8
  capacity :: u8
  batteryType :: u8

section \<open>The driver object and the hardware it drives\<close>

text \<open>
  What the driver does to the outside world is a trace of events, in program order. The
  one-wire bus (class \<open>OneWire\<close>, not part of the library) is an oracle: \<open>wire s k\<close> is
  the byte the \<open>k\<close>-th call of \<open>_oneWire.read()\<close> returns, and \<open>nread\<close> counts the calls
  made so far. Every theorem below holds for every oracle, that is for every device.
\<close>

datatype event =
    PinModeOutput
  | DigitalWrite bool
  | Delay nat
  | DelayMicroseconds nat
  | BusReset
  | BusWrite u8
  | BusRead u8

text \<open>
  \<open>lastError\<close> is the member \<open>char _lastError[64]\<close>, \<open>enableLine\<close> the level of the
  enable pin. A store or a load outside a buffer is undefined behaviour in C++: from
  that access on the language gives the run no meaning. The model executes every access
  inside its buffer exactly; an access outside it changes no buffer and is counted in
  \<open>oob\<close>. What the model computes after such an access is no statement about the
  program: a run from \<open>s\<close> to \<open>s'\<close> is one the C++ defines only when it is \<open>in_bounds\<close>.
\<close>

record BatteryOBI =
  lastError :: "char list"
  enableLine :: bool
  wire :: "nat \<Rightarrow> u8"
  nread :: nat
  trace :: "event list"
  oob :: nat

definition emit :: "event \<Rightarrow> BatteryOBI \<Rightarrow> BatteryOBI" where
  "emit e s = s\<lparr>trace := trace s @ [e]\<rparr>"

definition digitalWrite :: "bool \<Rightarrow> BatteryOBI \<Rightarrow> BatteryOBI" where
  "digitalWrite v s = emit (DigitalWrite v) (s\<lparr>enableLine := v\<rparr>)"

definition delay :: "nat \<Rightarrow> BatteryOBI \<Rightarrow> BatteryOBI" where
  "delay ms s = emit (Delay ms) s"

definition delayMicroseconds :: "nat \<Rightarrow> BatteryOBI \<Rightarrow> BatteryOBI" where
  "delayMicroseconds us s = emit (DelayMicroseconds us) s"

definition ow_reset :: "BatteryOBI \<Rightarrow> BatteryOBI" where
  "ow_reset s = emit BusReset s"

definition ow_write :: "u8 \<Rightarrow> BatteryOBI \<Rightarrow> BatteryOBI" where
  "ow_write b s = emit (BusWrite b) s"

definition ow_read :: "BatteryOBI \<Rightarrow> u8 \<times> BatteryOBI" where
  "ow_read s =
     (let b = wire s (nread s)
      in (b, emit (BusRead b) (s\<lparr>nread := nread s + 1\<rparr>)))"

definition store :: "'a list \<Rightarrow> nat \<Rightarrow> 'a \<Rightarrow> BatteryOBI \<Rightarrow> 'a list \<times> BatteryOBI" where
  "store buf i v s =
     (if i < length buf then (buf[i := v], s) else (buf, s\<lparr>oob := oob s + 1\<rparr>))"

definition load :: "u8 list \<Rightarrow> nat \<Rightarrow> BatteryOBI \<Rightarrow> u8 \<times> BatteryOBI" where
  "load buf i s =
     (if i < length buf then (buf ! i, s) else (0, s\<lparr>oob := oob s + 1\<rparr>))"

definition in_bounds :: "BatteryOBI \<Rightarrow> BatteryOBI \<Rightarrow> bool" where
  "in_bounds s s' \<longleftrightarrow> oob s' = oob s"

text \<open>
  The constructor sets \<open>_lastError[0]\<close> only; the other 63 bytes and the level of the pin
  are whatever they were (\<open>buf\<close>, \<open>lvl\<close>).
\<close>

definition BatteryOBI_new :: "char list \<Rightarrow> bool \<Rightarrow> (nat \<Rightarrow> u8) \<Rightarrow> BatteryOBI" where
  "BatteryOBI_new buf lvl w =
     \<lparr>lastError = buf[0 := NUL], enableLine = lvl, wire = w, nread = 0, trace = [], oob = 0\<rparr>"

definition begin_obi :: "BatteryOBI \<Rightarrow> BatteryOBI" where
  "begin_obi s = digitalWrite False (emit PinModeOutput s)"

definition enable :: "BatteryOBI \<Rightarrow> BatteryOBI" where
  "enable s = delay 400 (digitalWrite True s)"

definition disable :: "BatteryOBI \<Rightarrow> BatteryOBI" where
  "disable s = digitalWrite False s"

section \<open>Transactions\<close>

text \<open>
  The loop \<open>for (int i = lo; i < hi; i++) { delayMicroseconds(90); rsp[i] = _oneWire.read(); }\<close>
  of the three framing functions, and their loop that sends the command. The bounds are
  \<open>int\<close>s in the source (\<open>rspLen + 8\<close> is computed after promotion), so they do not wrap.
\<close>

function read_loop :: "nat \<Rightarrow> nat \<Rightarrow> u8 list \<Rightarrow> BatteryOBI \<Rightarrow> u8 list \<times> BatteryOBI" where
  "read_loop i hi rsp s =
     (if i < hi then
        (case ow_read (delayMicroseconds 90 s) of (b, s1) \<Rightarrow>
           (case store rsp i b s1 of (rsp1, s2) \<Rightarrow> read_loop (i + 1) hi rsp1 s2))
      else (rsp, s))"
  by pat_completeness auto
termination
  by (relation "measure (\<lambda>(i, hi, rsp, s). hi - i)") auto

function write_loop :: "nat \<Rightarrow> nat \<Rightarrow> u8 list \<Rightarrow> BatteryOBI \<Rightarrow> BatteryOBI" where
  "write_loop i cmdLen cmd s =
     (if i < cmdLen then
        (case load cmd i (delayMicroseconds 90 s) of (b, s1) \<Rightarrow>
           write_loop (i + 1) cmdLen cmd (ow_write b s1))
      else s)"
  by pat_completeness auto
termination
  by (relation "measure (\<lambda>(i, cmdLen, cmd, s). cmdLen - i)") auto

declare read_loop.simps [simp del]
declare write_loop.simps [simp del]

text \<open>A transaction: command, its length, response buffer, response length.\<close>

type_synonym xfer = "u8 list \<Rightarrow> nat \<Rightarrow> u8 list \<Rightarrow> nat \<Rightarrow> BatteryOBI \<Rightarrow> bool \<times> u8 list \<times> BatteryOBI"

definition cmdAndRead33 :: xfer where
  "cmdAndRead33 cmd cmdLen rsp rspLen s =
     (let s1 = ow_reset s;
          s2 = delayMicroseconds 400 s1;
          s3 = ow_write 0x33 s2
      in case read_loop 0 8 rsp s3 of (rsp1, s4) \<Rightarrow>
           (let s5 = write_loop 0 cmdLen cmd s4
            in case read_loop 8 (rspLen + 8) rsp1 s5 of (rsp2, s6) \<Rightarrow>
                 (True, rsp2, s6)))"

definition cmdAndReadCC :: xfer where
  "cmdAndReadCC cmd cmdLen rsp rspLen s =
     (let s1 = ow_reset s;
          s2 = delayMicroseconds 400 s1;
          s3 = ow_write 0xCC s2;
          s4 = write_loop 0 cmdLen cmd s3
      in case read_loop 0 rspLen rsp s4 of (rsp1, s5) \<Rightarrow> (True, rsp1, s5))"

definition cmdWithCCandRead :: xfer where
  "cmdWithCCandRead cmd cmdLen rsp rspLen s =
     (let s1 = ow_reset s;
          s2 = delayMicroseconds 400 s1;
          s3 = ow_write 0xCC s2;
          s4 = delayMicroseconds 90 s3;
          s5 = ow_write 0x99 s4;
          s6 = delay 400 s5;
          s7 = ow_reset s6;
          s8 = delayMicroseconds 400 s7;
          s9 = write_loop 0 cmdLen cmd s8
      in case read_loop 0 rspLen rsp s9 of (rsp1, s10) \<Rightarrow> (True, rsp1, s10))"

section \<open>Field decoding and the error text\<close>

definition nibbleSwap :: "u8 \<Rightarrow> u8" where
  "nibbleSwap byte =
     (let upperNibble = drop_bit 4 (byte AND 0xF0);
          lowerNibble = push_bit 4 (byte AND 0x0F)
      in upperNibble OR lowerNibble)"

text \<open>
  \<open>strncpy(dest, src, n)\<close>: the characters of \<open>src\<close> before its terminator, at most \<open>n\<close>
  of them, then NULs up to \<open>n\<close> characters in all. The C string \<open>src\<close> points to is the
  part of the list before its first NUL.
\<close>

definition c_str :: "char list \<Rightarrow> string" where
  "c_str buf = takeWhile (\<lambda>c. c \<noteq> NUL) buf"

definition strncpy_c :: "char list \<Rightarrow> string \<Rightarrow> nat \<Rightarrow> char list" where
  "strncpy_c dest src n =
     (let txt = c_str src
      in take n (txt @ replicate (n - length txt) NUL) @ drop n dest)"

definition setError :: "string \<Rightarrow> BatteryOBI \<Rightarrow> BatteryOBI" where
  "setError msg s =
     (let buf = strncpy_c (lastError s) msg (64 - 1)
      in s\<lparr>lastError := buf[64 - 1 := NUL]\<rparr>)"

definition getLastError :: "BatteryOBI \<Rightarrow> string" where
  "getLastError s = c_str (lastError s)"

text \<open>
  \<open>snprintf(dest, sz, ...)\<close> with the formatted text \<open>txt\<close>: at most \<open>sz - 1\<close>
  characters and a terminator. The format of \<open>romId\<close> is eight times \<open>%02X\<close>, separated
  by spaces; a \<open>uint8_t\<close> prints as exactly two upper-case hexadecimal digits.
\<close>

definition snprintf_c :: "char list \<Rightarrow> nat \<Rightarrow> string \<Rightarrow> char list" where
  "snprintf_c dest sz txt =
     (let out = take (sz - 1) txt @ [NUL] in out @ drop (length out) dest)"

definition hexDigit :: "u8 \<Rightarrow> char" where
  "hexDigit d = ''0123456789ABCDEF'' ! unat (d AND 0x0F)"

definition hex2 :: "u8 \<Rightarrow> string" where
  "hex2 b = [hexDigit (drop_bit 4 b), hexDigit b]"

definition format_romId :: "u8 list \<Rightarrow> string" where
  "format_romId r =
     hex2 (r ! 0) @ '' '' @ hex2 (r ! 1) @ '' '' @ hex2 (r ! 2) @ '' '' @ hex2 (r ! 3) @ '' '' @
     hex2 (r ! 4) @ '' '' @ hex2 (r ! 5) @ '' '' @ hex2 (r ! 6) @ '' '' @ hex2 (r ! 7)"

section \<open>Public operations\<close>

text \<open>
  Each operation is written over the transaction it calls, so that a failing transaction
  can be put in its place; the operation of the library is the instance at
  \<open>cmdAndReadCC\<close> or \<open>cmdAndRead33\<close>. The local array \<open>response\<close> is not initialised in
  the source; the model starts it with zeros. Constant indices into \<open>response\<close> are below
  its declared size.
\<close>

function copy_loop :: "nat \<Rightarrow> u8 list \<Rightarrow> char list \<Rightarrow> BatteryOBI \<Rightarrow> char list \<times> BatteryOBI" where
  "copy_loop i response mdl s =
     (if i < 7 \<and> i < 15 then
        (case store mdl i (to_char (response ! i)) s of (mdl1, s1) \<Rightarrow>
           copy_loop (i + 1) response mdl1 s1)
      else (mdl, s))"
  by pat_completeness auto
termination
  by (relation "measure (\<lambda>(i, response, mdl, s). 7 - i)") auto

declare copy_loop.simps [simp del]

definition readModel_with :: "xfer \<Rightarrow> char list \<Rightarrow> BatteryOBI \<Rightarrow> bool \<times> char list \<times> BatteryOBI" where
  "readModel_with tx mdl s =
     (let response0 = replicate 32 0;
          s1 = enable s
      in case tx MODEL_CMD MODEL_CMD_LEN response0 MODEL_RESPONSE_LEN s1 of (ok, response, s2) \<Rightarrow>
           if \<not> ok then
             (let s3 = disable s2; s4 = setError ''Failed to read model'' s3
              in (False, mdl, s4))
           else
             (let s3 = disable s2
              in case copy_loop 0 response mdl s3 of (mdl1, s4) \<Rightarrow>
                   (case store mdl1 7 NUL s4 of (mdl2, s5) \<Rightarrow> (True, mdl2, s5))))"

definition readBatteryInfo_with :: "xfer \<Rightarrow> BatteryData \<Rightarrow> BatteryOBI \<Rightarrow> bool \<times> BatteryData \<times> BatteryOBI" where
  "readBatteryInfo_with tx data s =
     (let response0 = replicate 48 0;
          s1 = enable s
      in case tx READ_MSG_CMD READ_MSG_LEN response0 READ_MSG_RESPONSE_LEN s1 of (ok, response, s2) \<Rightarrow>
           if \<not> ok then
             (let s3 = disable s2; s4 = setError ''Failed to read battery info'' s3
              in (False, data, s4))
           else
             (let s3 = disable s2;
                  data1 = data\<lparr>romId := snprintf_c (romId data) 24 (format_romId response)\<rparr>;
                  data2 = data1\<lparr>manufacturingYear := response ! 10\<rparr>;
                  data3 = data2\<lparr>manufacturingMonth := response ! 11\<rparr>;
                  data4 = data3\<lparr>manufacturingDay := response ! 12\<rparr>;
                  swapped1 = nibbleSwap (response ! 45);
                  swapped2 = nibbleSwap (response ! 44);
                  chargeCount0 = (push_bit 8 (ucast swapped1) OR ucast swapped2 :: u16);
                  data5 = data4\<lparr>chargeCount := chargeCount0 AND 0x0FFF\<rparr>;
                  lockNibble = response ! 38 AND 0x0F;
                  data6 = data5\<lparr>isLocked := (lockNibble > 0)\<rparr>;
                  data7 = data6\<lparr>statusCode := response ! 37\<rparr>;
                  data8 = data7\<lparr>capacity := nibbleSwap (response ! 34)\<rparr>;
                  data9 = data8\<lparr>batteryType := nibbleSwap (response ! 29)\<rparr>
              in (True, data9, s3)))"

text \<open>
  In \<open>((int16_t)response[15] << 8) | response[14]\<close> the operands are promoted to \<open>int\<close>
  and the result is converted back to \<open>int16_t\<close>, which keeps its low 16 bits: the bits
  the 16-bit word computes here.
\<close>

definition readBatteryData_with :: "xfer \<Rightarrow> BatteryData \<Rightarrow> BatteryOBI \<Rightarrow> bool \<times> BatteryData \<times> BatteryOBI" where
  "readBatteryData_with tx data s =
     (let response0 = replicate 32 0;
          s1 = enable s
      in case tx READ_DATA_CMD READ_DATA_LEN response0 READ_DATA_RESPONSE_LEN s1 of (ok, response, s2) \<Rightarrow>
           if \<not> ok then
             (let s3 = disable s2; s4 = setError ''Failed to read battery data'' s3
              in (False, data, s4))
           else
             (let s3 = disable s2;
                  data1 = data\<lparr>packVoltage := push_bit 8 (ucast (response ! 1)) OR ucast (response ! 0)\<rparr>;
                  data2 = data1\<lparr>cell1Voltage := push_bit 8 (ucast (response ! 3)) OR ucast (response ! 2)\<rparr>;
                  data3 = data2\<lparr>cell2Voltage := push_bit 8 (ucast (response ! 5)) OR ucast (response ! 4)\<rparr>;
                  data4 = data3\<lparr>cell3Voltage := push_bit 8 (ucast (response ! 7)) OR ucast (response ! 6)\<rparr>;
                  data5 = data4\<lparr>cell4Voltage := push_bit 8 (ucast (response ! 9)) OR ucast (response ! 8)\<rparr>;
                  data6 = data5\<lparr>cell5Voltage := push_bit 8 (ucast (response ! 11)) OR ucast (response ! 10)\<rparr>;
                  data7 = data6\<lparr>tempSensor1 := push_bit 8 (ucast (response ! 15)) OR ucast (response ! 14)\<rparr>;
                  data8 = data7\<lparr>tempSensor2 := push_bit 8 (ucast (response ! 17)) OR ucast (response ! 16)\<rparr>
              in (True, data8, s3)))"

definition ledsOn_with :: "xfer \<Rightarrow> BatteryOBI \<Rightarrow> bool \<times> BatteryOBI" where
  "ledsOn_with tx s =
     (let response0 = replicate 16 0;
          s1 = enable s
      in case tx TESTMODE_CMD TESTMODE_LEN response0 9 s1 of (ok1, response1, s2) \<Rightarrow>
           if \<not> ok1 then
             (let s3 = disable s2; s4 = setError ''Failed to enter test mode'' s3
              in (False, s4))
           else
             (case tx LEDS_ON_CMD LEDS_ON_LEN response1 9 s2 of (ok2, response2, s3) \<Rightarrow>
                if \<not> ok2 then
                  (let s4 = disable s3; s5 = setError ''Failed to turn LEDs on'' s4
                   in (False, s5))
                else (True, disable s3)))"

definition ledsOff_with :: "xfer \<Rightarrow> BatteryOBI \<Rightarrow> bool \<times> BatteryOBI" where
  "ledsOff_with tx s =
     (let response0 = replicate 16 0;
          s1 = enable s
      in case tx TESTMODE_CMD TESTMODE_LEN response0 9 s1 of (ok1, response1, s2) \<Rightarrow>
           if \<not> ok1 then
             (let s3 = disable s2; s4 = setError ''Failed to enter test mode'' s3
              in (False, s4))
           else
             (case tx LEDS_OFF_CMD LEDS_OFF_LEN response1 9 s2 of (ok2, response2, s3) \<Rightarrow>
                if \<not> ok2 then
                  (let s4 = disable s3; s5 = setError ''Failed to turn LEDs off'' s4
                   in (False, s5))
                else (True, disable s3)))"

definition clearErrors_with :: "xfer \<Rightarrow> BatteryOBI \<Rightarrow> bool \<times> BatteryOBI" where
  "clearErrors_with tx s =
     (let response0 = replicate 16 0;
          s1 = enable s
      in case tx TESTMODE_CMD TESTMODE_LEN response0 9 s1 of (ok1, response1, s2) \<Rightarrow>
           if \<not> ok1 then
             (let s3 = disable s2; s4 = setError ''Failed to enter test mode'' s3
              in (False, s4))
           else
             (case tx RESET_ERROR_CMD RESET_ERROR_LEN response1 9 s2 of (ok2, response2, s3) \<Rightarrow>
                if \<not> ok2 then
                  (let s4 = disable s3; s5 = setError ''Failed to clear errors'' s4
                   in (False, s5))
                else (True, disable s3)))"

definition readModel :: "char list \<Rightarrow> BatteryOBI \<Rightarrow> bool \<times> char list \<times> BatteryOBI" where
  "readModel = readModel_with cmdAndReadCC"

definition readBatteryInfo :: "BatteryData \<Rightarrow> BatteryOBI \<Rightarrow> bool \<times> BatteryData \<times> BatteryOBI" where
  "readBatteryInfo = readBatteryInfo_with cmdAndRead33"

definition readBatteryData :: "BatteryData \<Rightarrow> BatteryOBI \<Rightarrow> bool \<times> BatteryData \<times> BatteryOBI" where
  "readBatteryData = readBatteryData_with cmdAndReadCC"

definition ledsOn :: "BatteryOBI \<Rightarrow> bool \<times> BatteryOBI" where
  "ledsOn = ledsOn_with cmdAndRead33"

definition ledsOff :: "BatteryOBI \<Rightarrow> bool \<times> BatteryOBI" where
  "ledsOff = ledsOff_with cmdAndRead33"

definition clearErrors :: "BatteryOBI \<Rightarrow> bool \<times> BatteryOBI" where
  "clearErrors = clearErrors_with cmdAndRead33"

section \<open>Describing traces, failures and decoded values\<close>

text \<open>
  The events of \<open>n\<close> byte reads that start at read number \<open>k\<close> of the oracle \<open>w\<close>, of
  the writes of the bytes of a command, and of a whole transaction with the \<open>0x33\<close>
  prefix (reset, settle, prefix, 8 reads, command, \<open>n\<close> reads).
\<close>

primrec read_events :: "(nat \<Rightarrow> u8) \<Rightarrow> nat \<Rightarrow> nat \<Rightarrow> event list" where
  "read_events w k 0 = []"
| "read_events w k (Suc n) = DelayMicroseconds 90 # BusRead (w k) # read_events w (Suc k) n"

definition write_events :: "u8 list \<Rightarrow> event list" where
  "write_events cmd = concat (map (\<lambda>b. [DelayMicroseconds 90, BusWrite b]) cmd)"

definition variantA_events :: "(nat \<Rightarrow> u8) \<Rightarrow> nat \<Rightarrow> u8 list \<Rightarrow> nat \<Rightarrow> event list" where
  "variantA_events w k cmd n =
     [BusReset, DelayMicroseconds 400, BusWrite 0x33] @ read_events w k 8 @
     write_events cmd @ read_events w (k + 8) n"

text \<open>The levels written to the enable pin, in order.\<close>

fun pinWrites :: "event list \<Rightarrow> bool list" where
  "pinWrites [] = []"
| "pinWrites (DigitalWrite v # es) = v # pinWrites es"
| "pinWrites (e # es) = pinWrites es"

text \<open>
  \<open>gate_bracket s s'\<close>: going from \<open>s\<close> to \<open>s'\<close> kept the events of \<open>s\<close>, and the events
  added start with the enable pin going high, end with it going low, and write the pin
  at no other point; the pin is low in \<open>s'\<close>.
\<close>

definition new_events :: "BatteryOBI \<Rightarrow> BatteryOBI \<Rightarrow> event list" where
  "new_events s s' = drop (length (trace s)) (trace s')"

definition gate_bracket :: "BatteryOBI \<Rightarrow> BatteryOBI \<Rightarrow> bool" where
  "gate_bracket s s' \<longleftrightarrow>
     take (length (trace s)) (trace s') = trace s \<and>
     pinWrites (new_events s s') = [True, False] \<and>
     hd (new_events s s') = DigitalWrite True \<and>
     last (new_events s s') = DigitalWrite False \<and>
     \<not> enableLine s'"

text \<open>
  A transaction that only talks to the bus: whatever it is called with, it keeps the
  events so far, writes no level to the enable pin and leaves the pin as it is.
\<close>

definition bus_only :: "xfer \<Rightarrow> bool" where
  "bus_only tx \<longleftrightarrow>
     (\<forall>cmd cmdLen rsp rspLen s.
        case tx cmd cmdLen rsp rspLen s of (ok, rsp', s') \<Rightarrow>
          enableLine s' = enableLine s \<and>
          take (length (trace s)) (trace s') = trace s \<and>
          pinWrites (new_events s s') = [])"

text \<open>
  The framing functions of the library end in \<open>return true\<close>. \<open>failing tx\<close> does what
  \<open>tx\<close> does and reports failure: the injected fault the failure branches are tested
  with.
\<close>

definition failing :: "xfer \<Rightarrow> xfer" where
  "failing tx cmd cmdLen rsp rspLen s =
     (case tx cmd cmdLen rsp rspLen s of (ok, rsp', s') \<Rightarrow> (False, rsp', s'))"

text \<open>
  The decoders of the specification (section 4.2), in its words: the unsigned 16-bit
  value \<open>hi << 8 | lo\<close>, and the signed 16-bit value of the same byte order.
\<close>

definition littleEndian16 :: "u8 \<Rightarrow> u8 \<Rightarrow> nat" where
  "littleEndian16 lo hi = unat hi * 256 + unat lo"

definition littleEndianSigned16 :: "u8 \<Rightarrow> u8 \<Rightarrow> int" where
  "littleEndianSigned16 lo hi =
     (let v = int (littleEndian16 lo hi) in if v < 32768 then v else v - 65536)"

text \<open>
  A driver after construction and \<open>begin()\<close> on a bus that answers \<open>w\<close>, and a
  zero-initialised \<open>BatteryData\<close>: the inputs of the worked examples.
\<close>

definition started :: "(nat \<Rightarrow> u8) \<Rightarrow> BatteryOBI" where
  "started w = begin_obi (BatteryOBI_new (replicate 64 (CHR ''#'')) True w)"

definition zeroData :: BatteryData where
  "zeroData =
     \<lparr>model = replicate 16 NUL, romId = replicate 24 NUL, chargeCount = 0, isLocked = False,
      statusCode = 0, packVoltage = 0, cell1Voltage = 0, cell2Voltage = 0, cell3Voltage = 0,
      cell4Voltage = 0, cell5Voltage = 0, tempSensor1 = 0, tempSensor2 = 0,
      manufacturingYear = 0, manufacturingMonth = 0, manufacturingDay = 0, capacity = 0,
      batteryType = 0\<rparr>"

text \<open>
  \<open>rx s k\<close> is byte number \<open>k\<close> of those the bus delivers from state \<open>s\<close> on: what a
  transaction started in \<open>s\<close> stores at index \<open>k\<close> of its response buffer. The events of
  a transaction with the \<open>0xCC\<close> prefix.
\<close>

definition rx :: "BatteryOBI \<Rightarrow> nat \<Rightarrow> u8" where
  "rx s k = wire s (nread s + k)"

definition variantB_events :: "(nat \<Rightarrow> u8) \<Rightarrow> nat \<Rightarrow> u8 list \<Rightarrow> nat \<Rightarrow> event list" where
  "variantB_events w k cmd n =
     [BusReset, DelayMicroseconds 400, BusWrite 0xCC] @ write_events cmd @ read_events w k n"

section \<open>Basic facts\<close>

lemmas cmd_defs =
  READ_MSG_CMD_def READ_MSG_LEN_def READ_MSG_RESPONSE_LEN_def
  MODEL_CMD_def MODEL_CMD_LEN_def MODEL_RESPONSE_LEN_def
  READ_DATA_CMD_def READ_DATA_LEN_def READ_DATA_RESPONSE_LEN_def
  TESTMODE_CMD_def TESTMODE_LEN_def LEDS_ON_CMD_def LEDS_ON_LEN_def
  LEDS_OFF_CMD_def LEDS_OFF_LEN_def RESET_ERROR_CMD_def RESET_ERROR_LEN_def

lemma pinWrites_append [simp]: "pinWrites (xs @ ys) = pinWrites xs @ pinWrites ys"
  by (induction xs rule: pinWrites.induct) auto

lemma pinWrites_read_events [simp]: "pinWrites (read_events w k n) = []"
  by (induction n arbitrary: k) auto

lemma pinWrites_write_events [simp]: "pinWrites (write_events cmd) = []"
  by (induction cmd) (auto simp: write_events_def)

lemma read_events_add: "read_events w k (m + n) = read_events w k m @ read_events w (k + m) n"
  by (induction m arbitrary: k) auto

lemma read_loop_done: "\<not> i < hi \<Longrightarrow> read_loop i hi rsp s = (rsp, s)"
  by (subst read_loop.simps) simp

lemma read_loop_step:
  "i < hi \<Longrightarrow>
   read_loop i hi rsp s =
     read_loop (Suc i) hi (if i < length rsp then rsp[i := wire s (nread s)] else rsp)
       (s\<lparr>nread := Suc (nread s),
          trace := trace s @ [DelayMicroseconds 90, BusRead (wire s (nread s))],
          oob := (if i < length rsp then oob s else Suc (oob s))\<rparr>)"
  by (subst read_loop.simps)
     (simp add: ow_read_def delayMicroseconds_def emit_def store_def Let_def)

lemma read_loop_state_aux:
  "hi - i = n \<Longrightarrow>
   snd (read_loop i hi rsp s) =
     s\<lparr>nread := nread s + n,
       trace := trace s @ read_events (wire s) (nread s) n,
       oob := oob s + (hi - max i (length rsp))\<rparr>"
proof (induction n arbitrary: i rsp s)
  case 0
  then show ?case by (simp add: read_loop_done)
next
  case (Suc n)
  then have lt: "i < hi" and rest: "hi - Suc i = n" by simp_all
  show ?case
    unfolding read_loop_step [OF lt] Suc.IH [OF rest]
    using lt by (auto simp add: max_def)
qed

lemma read_loop_state:
  "snd (read_loop i hi rsp s) =
     s\<lparr>nread := nread s + (hi - i),
       trace := trace s @ read_events (wire s) (nread s) (hi - i),
       oob := oob s + (hi - max i (length rsp))\<rparr>"
  by (rule read_loop_state_aux) simp

lemma read_loop_buf_aux:
  "hi - i = n \<Longrightarrow> i \<le> hi \<Longrightarrow> hi \<le> length rsp \<Longrightarrow>
   fst (read_loop i hi rsp s) = take i rsp @ map (wire s) [nread s ..< nread s + n] @ drop hi rsp"
proof (induction n arbitrary: i rsp s)
  case 0
  then show ?case by (simp add: read_loop_done)
next
  case (Suc n)
  then have lt: "i < hi" and rest: "hi - Suc i = n" and inb: "i < length rsp" by simp_all
  have le: "Suc i \<le> hi" using lt by simp
  have len: "hi \<le> length (rsp[i := wire s (nread s)])" using Suc.prems by simp
  show ?case
    unfolding read_loop_step [OF lt]
    using inb lt Suc.IH [OF rest le len]
    by (simp add: upt_conv_Cons take_Suc_conv_app_nth del: upt_Suc)
qed

lemma read_loop_buf:
  "i \<le> hi \<Longrightarrow> hi \<le> length rsp \<Longrightarrow>
   fst (read_loop i hi rsp s) =
     take i rsp @ map (wire s) [nread s ..< nread s + (hi - i)] @ drop hi rsp"
  by (rule read_loop_buf_aux) simp_all

lemma read_loop_length [simp]: "length (fst (read_loop i hi rsp s)) = length rsp"
proof (induction "hi - i" arbitrary: i rsp s)
  case 0
  then show ?case by (simp add: read_loop_done)
next
  case (Suc n)
  then have lt: "i < hi" and rest: "n = hi - Suc i" by simp_all
  show ?case
    unfolding read_loop_step [OF lt]
    using Suc.hyps(1) [OF rest] by simp
qed

lemma write_loop_done: "\<not> i < cmdLen \<Longrightarrow> write_loop i cmdLen cmd s = s"
  by (subst write_loop.simps) simp

text \<open>The byte sent at position i, and the state of the out-of-bounds counter after.\<close>

lemma write_loop_step:
  "i < cmdLen \<Longrightarrow>
   write_loop i cmdLen cmd s =
     write_loop (Suc i) cmdLen cmd
       (s\<lparr>oob := (if i < length cmd then oob s else Suc (oob s)),
          trace := trace s @ [DelayMicroseconds 90, BusWrite (if i < length cmd then cmd ! i else 0)]\<rparr>)"
  by (subst write_loop.simps, cases "i < length cmd")
     (simp_all add: ow_write_def delayMicroseconds_def emit_def load_def Let_def)

lemma write_loop_state_aux:
  "cmdLen - i = n \<Longrightarrow> cmdLen \<le> length cmd \<Longrightarrow>
   write_loop i cmdLen cmd s =
     s\<lparr>trace := trace s @ write_events (take n (drop i cmd))\<rparr>"
proof (induction n arbitrary: i s)
  case 0
  then show ?case by (simp add: write_loop_done write_events_def)
next
  case (Suc n)
  then have lt: "i < cmdLen" and rest: "cmdLen - Suc i = n" and inb: "i < length cmd" by simp_all
  have dr: "drop i cmd = cmd ! i # drop (Suc i) cmd"
    using inb by (simp add: Cons_nth_drop_Suc)
  show ?case
    unfolding write_loop_step [OF lt] Suc.IH [OF rest Suc.prems(2)]
    using inb by (simp add: dr write_events_def)
qed

lemma write_loop_state:
  "cmdLen \<le> length cmd \<Longrightarrow>
   write_loop 0 cmdLen cmd s = s\<lparr>trace := trace s @ write_events (take cmdLen cmd)\<rparr>"
  using write_loop_state_aux [of cmdLen 0 cmdLen cmd s] by simp

text \<open>Whatever the lengths: the sending loop adds bus events only.\<close>

lemma write_loop_quiet_aux:
  "cmdLen - i = n \<Longrightarrow>
   \<exists>ev k. write_loop i cmdLen cmd s = s\<lparr>trace := trace s @ ev, oob := k\<rparr> \<and> pinWrites ev = []"
proof (induction n arbitrary: i s)
  case 0
  then have "write_loop i cmdLen cmd s = s\<lparr>trace := trace s @ [], oob := oob s\<rparr>"
    by (simp add: write_loop_done)
  then show ?case by (metis pinWrites.simps(1))
next
  case (Suc n)
  then have lt: "i < cmdLen" and rest: "cmdLen - Suc i = n" by simp_all
  let ?s1 = "s\<lparr>oob := (if i < length cmd then oob s else Suc (oob s)),
          trace := trace s @ [DelayMicroseconds 90, BusWrite (if i < length cmd then cmd ! i else 0)]\<rparr>"
  from Suc.IH [OF rest, of ?s1] obtain ev k where
    w: "write_loop (Suc i) cmdLen cmd ?s1 = ?s1\<lparr>trace := trace ?s1 @ ev, oob := k\<rparr>"
    and p: "pinWrites ev = []" by blast
  have "write_loop i cmdLen cmd s =
      s\<lparr>trace := trace s @ ([DelayMicroseconds 90, BusWrite (if i < length cmd then cmd ! i else 0)] @ ev), oob := k\<rparr>"
    unfolding write_loop_step [OF lt] w by simp
  moreover have "pinWrites ([DelayMicroseconds 90, BusWrite (if i < length cmd then cmd ! i else 0)] @ ev) = []"
    using p by simp
  ultimately show ?case by blast
qed

lemma write_loop_quiet:
  "\<exists>ev k. write_loop i cmdLen cmd s = s\<lparr>trace := trace s @ ev, oob := k\<rparr> \<and> pinWrites ev = []"
  by (rule write_loop_quiet_aux) simp

lemma trace_emit_defs:
  "ow_reset s = s\<lparr>trace := trace s @ [BusReset]\<rparr>"
  "ow_write b s = s\<lparr>trace := trace s @ [BusWrite b]\<rparr>"
  "delayMicroseconds us s = s\<lparr>trace := trace s @ [DelayMicroseconds us]\<rparr>"
  "delay ms s = s\<lparr>trace := trace s @ [Delay ms]\<rparr>"
  "enable s = s\<lparr>enableLine := True, trace := trace s @ [DigitalWrite True, Delay 400]\<rparr>"
  "disable s = s\<lparr>enableLine := False, trace := trace s @ [DigitalWrite False]\<rparr>"
  by (simp_all add: ow_reset_def ow_write_def delayMicroseconds_def delay_def enable_def
      disable_def digitalWrite_def emit_def)

lemma cmdAndRead33_ok [simp]: "fst (cmdAndRead33 cmd cmdLen rsp rspLen s)"
  by (simp add: cmdAndRead33_def Let_def case_prod_beta)

lemma cmdAndReadCC_ok [simp]: "fst (cmdAndReadCC cmd cmdLen rsp rspLen s)"
  by (simp add: cmdAndReadCC_def Let_def case_prod_beta)

lemma cmdAndRead33_length [simp]:
  "length (fst (snd (cmdAndRead33 cmd cmdLen rsp rspLen s))) = length rsp"
  by (simp add: cmdAndRead33_def Let_def case_prod_beta)

lemma cmdAndReadCC_length [simp]:
  "length (fst (snd (cmdAndReadCC cmd cmdLen rsp rspLen s))) = length rsp"
  by (simp add: cmdAndReadCC_def Let_def case_prod_beta)

lemma cmdAndRead33_state:
  assumes "cmdLen \<le> length cmd"
  shows "snd (snd (cmdAndRead33 cmd cmdLen rsp rspLen s)) =
     s\<lparr>nread := nread s + (8 + rspLen),
       trace := trace s @ variantA_events (wire s) (nread s) (take cmdLen cmd) rspLen,
       oob := oob s + (8 - length rsp) + (rspLen + 8 - max 8 (length rsp))\<rparr>"
  by (simp add: cmdAndRead33_def Let_def case_prod_beta read_loop_state
      write_loop_state [OF assms] trace_emit_defs variantA_events_def)

lemma cmdAndRead33_buf:
  assumes "rspLen + 8 \<le> length rsp"
  shows "fst (snd (cmdAndRead33 cmd cmdLen rsp rspLen s)) =
     map (wire s) [nread s ..< nread s + (8 + rspLen)] @ drop (8 + rspLen) rsp"
proof -
  obtain ev k where w: "\<And>s'. write_loop 0 cmdLen cmd s' = s'\<lparr>trace := trace s' @ ev s', oob := k s'\<rparr>"
    using write_loop_quiet [of 0 cmdLen cmd] by metis
  have 8: "8 \<le> length rsp" using assms by simp
  have split: "[nread s ..< nread s + (8 + rspLen)] = [nread s ..< nread s + 8] @ [nread s + 8 ..< nread s + 8 + rspLen]"
    by (metis add.assoc le_add1 upt_add_eq_append)
  have "fst (snd (cmdAndRead33 cmd cmdLen rsp rspLen s)) =
      map (wire s) [nread s ..< nread s + 8] @ map (wire s) [nread s + 8 ..< nread s + 8 + rspLen] @
      drop (rspLen + 8) rsp"
    using assms 8
    by (simp add: cmdAndRead33_def Let_def case_prod_beta read_loop_state read_loop_buf w
        trace_emit_defs del: upt_Suc)
  then show ?thesis
    unfolding split by (simp add: add.commute)
qed

subsection \<open>Nibbles\<close>

lemma lo_mask: "(0x0F :: u8) = mask 4"
  by (simp add: mask_eq_exp_minus_1)

lemma hi_mask: "(0xF0 :: u8) = push_bit 4 (mask 4)"
  by (simp add: mask_eq_exp_minus_1 push_bit_eq_mult)

lemma bit_nibbleSwap:
  "bit (nibbleSwap b) n = (if n < 4 then bit b (n + 4) else n < 8 \<and> bit b (n - 4))"
  unfolding nibbleSwap_def Let_def lo_mask hi_mask
  by (auto simp add: bit_simps ac_simps dest: bit_imp_le_length)

subsection \<open>What a transaction returns\<close>

lemma cmdAndRead33_result:
  assumes "cmdLen \<le> length cmd" and "rspLen + 8 \<le> length rsp"
  shows "cmdAndRead33 cmd cmdLen rsp rspLen s =
     (True,
      map (wire s) [nread s ..< nread s + (8 + rspLen)] @ drop (8 + rspLen) rsp,
      s\<lparr>nread := nread s + (8 + rspLen),
        trace := trace s @ variantA_events (wire s) (nread s) (take cmdLen cmd) rspLen\<rparr>)"
proof -
  have full: "8 - length rsp = 0" "rspLen + 8 - max 8 (length rsp) = 0"
    using assms(2) by simp_all
  have "snd (snd (cmdAndRead33 cmd cmdLen rsp rspLen s)) =
      s\<lparr>nread := nread s + (8 + rspLen),
        trace := trace s @ variantA_events (wire s) (nread s) (take cmdLen cmd) rspLen\<rparr>"
    unfolding cmdAndRead33_state [OF assms(1)] using full by simp
  then show ?thesis
    using cmdAndRead33_buf [OF assms(2), of cmd cmdLen s] cmdAndRead33_ok [of cmd cmdLen rsp rspLen s]
    by (cases "cmdAndRead33 cmd cmdLen rsp rspLen s") simp
qed

lemma cmdAndReadCC_result:
  assumes "cmdLen \<le> length cmd" and "rspLen \<le> length rsp"
  shows "cmdAndReadCC cmd cmdLen rsp rspLen s =
     (True,
      map (wire s) [nread s ..< nread s + rspLen] @ drop rspLen rsp,
      s\<lparr>nread := nread s + rspLen,
        trace := trace s @ variantB_events (wire s) (nread s) (take cmdLen cmd) rspLen\<rparr>)"
proof -
  have full: "rspLen - length rsp = 0"
    using assms(2) by simp
  show ?thesis
    using assms(2)
    by (simp add: cmdAndReadCC_def Let_def case_prod_beta read_loop_state read_loop_buf
        write_loop_state [OF assms(1)] trace_emit_defs variantB_events_def prod_eq_iff full)
qed

subsection \<open>Transactions talk to the bus only\<close>

lemma bus_onlyD:
  assumes "bus_only tx"
  obtains ev where "pinWrites ev = []"
    and "enableLine (snd (snd (tx cmd cmdLen rsp rspLen s))) = enableLine s"
    and "trace (snd (snd (tx cmd cmdLen rsp rspLen s))) = trace s @ ev"
proof -
  let ?s' = "snd (snd (tx cmd cmdLen rsp rspLen s))"
  from assms have a: "enableLine ?s' = enableLine s"
    and b: "take (length (trace s)) (trace ?s') = trace s"
    and c: "pinWrites (new_events s ?s') = []"
    unfolding bus_only_def
    by (auto simp add: case_prod_beta dest!: spec [of _ cmd] spec [of _ cmdLen] spec [of _ rsp] spec [of _ rspLen] spec [of _ s])
  have "trace ?s' = trace s @ new_events s ?s'"
    unfolding new_events_def using b by (metis append_take_drop_id)
  with a c that show thesis by blast
qed

subsection \<open>The error text\<close>

lemma c_str_no_NUL: "NUL \<notin> set (c_str xs)"
  unfolding c_str_def by (induction xs) auto

lemma c_str_id: "NUL \<notin> set xs \<Longrightarrow> c_str xs = xs"
  unfolding c_str_def by (induction xs) auto

lemma c_str_stop: "NUL \<notin> set xs \<Longrightarrow> c_str (xs @ NUL # ys) = xs"
  unfolding c_str_def by (induction xs) auto

lemma setError_frame [simp]:
  "trace (setError msg s) = trace s"
  "enableLine (setError msg s) = enableLine s"
  "nread (setError msg s) = nread s"
  "wire (setError msg s) = wire s"
  "oob (setError msg s) = oob s"
  by (simp_all add: setError_def Let_def)

lemma setError_buffer:
  "lastError (setError msg s) =
     take 63 (c_str msg @ replicate (63 - length (c_str msg)) NUL) @
     (if 63 < length (lastError s) then NUL # drop 64 (lastError s) else [])"
proof -
  let ?T = "take 63 (c_str msg @ replicate (63 - length (c_str msg)) NUL)"
  have len: "length ?T = 63" by simp
  have "(?T @ drop 63 (lastError s))[63 := NUL] =
      ?T @ (drop 63 (lastError s))[0 := NUL]"
    using len by (simp add: list_update_append)
  moreover have "(drop 63 (lastError s))[0 := NUL] =
      (if 63 < length (lastError s) then NUL # drop 64 (lastError s) else [])"
  proof (cases "drop 63 (lastError s)")
    case Nil
    then show ?thesis by simp
  next
    case (Cons a as)
    then have "63 < length (lastError s)"
      by (metis drop_eq_Nil list.distinct(1) not_le)
    moreover have "drop 64 (lastError s) = tl (drop 63 (lastError s))"
    proof -
      have "drop 64 (lastError s) = drop (Suc 63) (lastError s)" by simp
      then show ?thesis by (simp only: drop_Suc drop_tl)
    qed
    ultimately show ?thesis using Cons by simp
  qed
  ultimately show ?thesis
    by (simp add: setError_def strncpy_c_def Let_def)
qed

lemma getLastError_setError:
  "getLastError (setError msg s) = take 63 (c_str msg)"
proof (cases "length (c_str msg) < 63")
  case True
  then obtain k where k: "63 - length (c_str msg) = Suc k"
    by (metis Suc_diff_Suc)
  have t: "take 63 (c_str msg @ replicate (63 - length (c_str msg)) NUL) =
      c_str msg @ NUL # replicate k NUL"
    using True k by simp
  have "c_str ((c_str msg @ NUL # replicate k NUL) @ ys) = c_str msg" for ys
    using c_str_stop [OF c_str_no_NUL, of msg "replicate k NUL @ ys"] by simp
  then show ?thesis
    unfolding getLastError_def setError_buffer t
    using True by simp
next
  case False
  then have t: "take 63 (c_str msg @ replicate (63 - length (c_str msg)) NUL) = take 63 (c_str msg)"
    by simp
  have n: "NUL \<notin> set (take 63 (c_str msg))"
    using c_str_no_NUL [of msg] by (meson in_set_takeD)
  show ?thesis
    unfolding getLastError_def setError_buffer t
    using n by (simp add: c_str_stop c_str_id)
qed

lemma getLastError_short:
  "NUL \<notin> set msg \<Longrightarrow> length msg \<le> 63 \<Longrightarrow> getLastError (setError msg s) = msg"
  by (simp add: getLastError_setError c_str_id)

subsection \<open>The worked examples' driver\<close>

lemma started_fields:
  "lastError (started w) = NUL # replicate 63 (CHR ''#'')"
  "enableLine (started w) = False"
  "wire (started w) = w"
  "nread (started w) = 0"
  "trace (started w) = [PinModeOutput, DigitalWrite False]"
  "oob (started w) = 0"
  by (simp_all add: started_def begin_obi_def BatteryOBI_new_def digitalWrite_def emit_def
      eval_nat_numeral)

subsection \<open>The operations over any transaction\<close>

lemma store_frame:
  "trace (snd (store buf i v s)) = trace s"
  "enableLine (snd (store buf i v s)) = enableLine s"
  "lastError (snd (store buf i v s)) = lastError s"
  by (simp_all add: store_def)

lemma copy_loop_frame_aux:
  "7 - i = n \<Longrightarrow>
   trace (snd (copy_loop i response mdl s)) = trace s \<and>
   enableLine (snd (copy_loop i response mdl s)) = enableLine s \<and>
   lastError (snd (copy_loop i response mdl s)) = lastError s"
proof (induction n arbitrary: i mdl s)
  case 0
  then show ?case by (subst copy_loop.simps)+ simp
next
  case (Suc n)
  then have lt: "i < 7" and rest: "7 - (i + 1) = n" by simp_all
  obtain mdl1 s1 where st: "store mdl i (to_char (response ! i)) s = (mdl1, s1)"
    by (cases "store mdl i (to_char (response ! i)) s")
  have fr: "trace s1 = trace s" "enableLine s1 = enableLine s" "lastError s1 = lastError s"
    using store_frame [of mdl i "to_char (response ! i)" s] st by simp_all
  have "copy_loop i response mdl s = copy_loop (i + 1) response mdl1 s1"
    using lt st by (subst copy_loop.simps) simp
  then show ?case
    using Suc.IH [OF rest, of mdl1 s1] fr by simp
qed

lemmas copy_loop_frame = copy_loop_frame_aux [OF refl]

lemma gate_bracketI:
  assumes "trace s' = trace s @ DigitalWrite True # Delay 400 # ev @ [DigitalWrite False]"
    and "pinWrites ev = []" and "\<not> enableLine s'"
  shows "gate_bracket s s'"
  using assms by (simp add: gate_bracket_def new_events_def)

lemma readModel_with_bracket:
  assumes "bus_only tx"
  shows "gate_bracket s (snd (snd (readModel_with tx mdl s)))"
proof -
  let ?r = "tx MODEL_CMD MODEL_CMD_LEN (replicate 32 0) MODEL_RESPONSE_LEN (enable s)"
  from assms obtain ev where ev: "pinWrites ev = []"
    and lv: "enableLine (snd (snd ?r)) = enableLine (enable s)"
    and tr: "trace (snd (snd ?r)) = trace (enable s) @ ev"
    by (rule bus_onlyD)
  show ?thesis
  proof (rule gate_bracketI [where ev = ev])
    show "pinWrites ev = []" by (rule ev)
    show "trace (snd (snd (readModel_with tx mdl s))) =
        trace s @ DigitalWrite True # Delay 400 # ev @ [DigitalWrite False]"
      using tr
      by (simp add: readModel_with_def Let_def case_prod_beta store_frame copy_loop_frame
          trace_emit_defs)
    show "\<not> enableLine (snd (snd (readModel_with tx mdl s)))"
      by (simp add: readModel_with_def Let_def case_prod_beta store_frame copy_loop_frame
          trace_emit_defs)
  qed
qed

lemma readBatteryInfo_with_bracket:
  assumes "bus_only tx"
  shows "gate_bracket s (snd (snd (readBatteryInfo_with tx data s)))"
proof -
  let ?r = "tx READ_MSG_CMD READ_MSG_LEN (replicate 48 0) READ_MSG_RESPONSE_LEN (enable s)"
  from assms obtain ev where ev: "pinWrites ev = []"
    and lv: "enableLine (snd (snd ?r)) = enableLine (enable s)"
    and tr: "trace (snd (snd ?r)) = trace (enable s) @ ev"
    by (rule bus_onlyD)
  show ?thesis
  proof (rule gate_bracketI [where ev = ev])
    show "pinWrites ev = []" by (rule ev)
    show "trace (snd (snd (readBatteryInfo_with tx data s))) =
        trace s @ DigitalWrite True # Delay 400 # ev @ [DigitalWrite False]"
      using tr
      by (simp add: readBatteryInfo_with_def Let_def case_prod_beta trace_emit_defs)
    show "\<not> enableLine (snd (snd (readBatteryInfo_with tx data s)))"
      by (simp add: readBatteryInfo_with_def Let_def case_prod_beta trace_emit_defs)
  qed
qed

lemma readBatteryData_with_bracket:
  assumes "bus_only tx"
  shows "gate_bracket s (snd (snd (readBatteryData_with tx data s)))"
proof -
  let ?r = "tx READ_DATA_CMD READ_DATA_LEN (replicate 32 0) READ_DATA_RESPONSE_LEN (enable s)"
  from assms obtain ev where ev: "pinWrites ev = []"
    and lv: "enableLine (snd (snd ?r)) = enableLine (enable s)"
    and tr: "trace (snd (snd ?r)) = trace (enable s) @ ev"
    by (rule bus_onlyD)
  show ?thesis
  proof (rule gate_bracketI [where ev = ev])
    show "pinWrites ev = []" by (rule ev)
    show "trace (snd (snd (readBatteryData_with tx data s))) =
        trace s @ DigitalWrite True # Delay 400 # ev @ [DigitalWrite False]"
      using tr
      by (simp add: readBatteryData_with_def Let_def case_prod_beta trace_emit_defs)
    show "\<not> enableLine (snd (snd (readBatteryData_with tx data s)))"
      by (simp add: readBatteryData_with_def Let_def case_prod_beta trace_emit_defs)
  qed
qed

text \<open>
  The three operations that enter the test mode first have one shape: two transactions,
  the second one only after the first one succeeded.
\<close>

lemma two_step_bracket:
  assumes bo: "bus_only tx"
    and shape: "\<And>s. op s =
     (case tx TESTMODE_CMD TESTMODE_LEN (replicate 16 0) 9 (enable s) of (ok1, response1, s2) \<Rightarrow>
        if \<not> ok1 then (False, setError msgA (disable s2))
        else (case tx cmdB lenB response1 9 s2 of (ok2, response2, s3) \<Rightarrow>
                if \<not> ok2 then (False, setError msgB (disable s3)) else (True, disable s3)))"
  shows "gate_bracket s (snd (op s))"
proof -
  let ?r1 = "tx TESTMODE_CMD TESTMODE_LEN (replicate 16 0) 9 (enable s)"
  let ?r2 = "tx cmdB lenB (fst (snd ?r1)) 9 (snd (snd ?r1))"
  from bo obtain ev1 where ev1: "pinWrites ev1 = []"
    and lv1: "enableLine (snd (snd ?r1)) = enableLine (enable s)"
    and tr1: "trace (snd (snd ?r1)) = trace (enable s) @ ev1"
    by (rule bus_onlyD)
  from bo obtain ev2 where ev2: "pinWrites ev2 = []"
    and lv2: "enableLine (snd (snd ?r2)) = enableLine (snd (snd ?r1))"
    and tr2: "trace (snd (snd ?r2)) = trace (snd (snd ?r1)) @ ev2"
    by (rule bus_onlyD)
  show ?thesis
  proof (cases "fst ?r1")
    case False
    show ?thesis
    proof (rule gate_bracketI [where ev = ev1])
      show "pinWrites ev1 = []" by (rule ev1)
      show "trace (snd (op s)) = trace s @ DigitalWrite True # Delay 400 # ev1 @ [DigitalWrite False]"
        using False tr1 by (simp add: shape case_prod_beta trace_emit_defs)
      show "\<not> enableLine (snd (op s))"
        using False by (simp add: shape case_prod_beta trace_emit_defs)
    qed
  next
    case True
    show ?thesis
    proof (rule gate_bracketI [where ev = "ev1 @ ev2"])
      show "pinWrites (ev1 @ ev2) = []" using ev1 ev2 by simp
      show "trace (snd (op s)) =
          trace s @ DigitalWrite True # Delay 400 # (ev1 @ ev2) @ [DigitalWrite False]"
        using True tr1 tr2 by (simp add: shape case_prod_beta trace_emit_defs)
      show "\<not> enableLine (snd (op s))"
        using True by (simp add: shape case_prod_beta trace_emit_defs)
    qed
  qed
qed

lemma ledsOn_with_bracket: "bus_only tx \<Longrightarrow> gate_bracket s (snd (ledsOn_with tx s))"
  by (rule two_step_bracket [where msgA = "''Failed to enter test mode''"
        and msgB = "''Failed to turn LEDs on''" and cmdB = LEDS_ON_CMD and lenB = LEDS_ON_LEN])
     (simp_all only: ledsOn_with_def Let_def)

lemma ledsOff_with_bracket: "bus_only tx \<Longrightarrow> gate_bracket s (snd (ledsOff_with tx s))"
  by (rule two_step_bracket [where msgA = "''Failed to enter test mode''"
        and msgB = "''Failed to turn LEDs off''" and cmdB = LEDS_OFF_CMD and lenB = LEDS_OFF_LEN])
     (simp_all only: ledsOff_with_def Let_def)

lemma clearErrors_with_bracket: "bus_only tx \<Longrightarrow> gate_bracket s (snd (clearErrors_with tx s))"
  by (rule two_step_bracket [where msgA = "''Failed to enter test mode''"
        and msgB = "''Failed to clear errors''" and cmdB = RESET_ERROR_CMD and lenB = RESET_ERROR_LEN])
     (simp_all only: clearErrors_with_def Let_def)

subsection \<open>Sixteen-bit values from two bytes\<close>

lemma le16_uint: "uint (push_bit 8 (ucast hi) OR ucast lo :: 16 word) = uint (hi :: u8) * 256 + uint (lo :: u8)"
proof -
  have lo: "0 \<le> uint lo" "uint lo < 256" using uint_lt2p [of lo] by simp_all
  have hi: "0 \<le> uint hi" "uint hi < 256" using uint_lt2p [of hi] by simp_all
  have a: "(push_bit 8 (ucast hi) OR ucast lo :: 16 word) = word_cat hi lo"
    by (simp add: word_cat_eq_push_bit_or)
  have b: "uint (word_cat hi lo :: 16 word) = take_bit 16 (concat_bit 8 (uint lo) (uint hi))"
    unfolding word_cat_eq' uint_word_of_int_eq by simp
  have c: "concat_bit 8 (uint lo) (uint hi) = uint lo + 256 * uint hi"
    using lo hi by (simp add: concat_bit_eq take_bit_int_eq_self push_bit_eq_mult)
  have d: "take_bit 16 (uint lo + 256 * uint hi) = uint lo + 256 * uint hi"
    using lo hi by (simp add: take_bit_int_eq_self)
  show ?thesis
    unfolding a b c d by simp
qed

lemma sint16: "sint (w :: 16 word) = (if uint w < 32768 then uint w else uint w - 65536)"
proof -
  have r: "0 \<le> uint w" "uint w < 65536" using uint_lt2p [of w] by simp_all
  have b: "bit (uint w) 15 \<longleftrightarrow> \<not> uint w < 32768"
  proof -
    have "uint w div 32768 = (if uint w < 32768 then 0 else 1)"
      using r by auto
    then show ?thesis by (simp add: bit_iff_odd)
  qed
  show ?thesis
    using r b
    by (simp add: sint_uint signed_take_bit_eq_take_bit_minus take_bit_int_eq_self)
qed

lemma le16_unat: "unat (push_bit 8 (ucast hi) OR ucast lo :: 16 word) = littleEndian16 lo hi"
  using le16_uint [of hi lo] 
  by (simp add: littleEndian16_def unat_eq_nat_uint nat_add_distrib nat_mult_distrib del: nat_uint_eq)

lemma le16_sint: "sint (push_bit 8 (ucast hi) OR ucast lo :: 16 word) = littleEndianSigned16 lo hi"
proof -
  have "int (littleEndian16 lo hi) = uint (push_bit 8 (ucast hi) OR ucast lo :: 16 word)"
    unfolding le16_uint by (simp add: littleEndian16_def)
  then show ?thesis
    by (simp add: littleEndianSigned16_def sint16 Let_def)
qed

subsection \<open>The operations of the library\<close>

lemma enable_fields [simp]:
  "wire (enable s) = wire s" "nread (enable s) = nread s" "oob (enable s) = oob s"
  "lastError (enable s) = lastError s"
  by (simp_all add: trace_emit_defs)

lemma rx_nth:
  "k < n \<Longrightarrow> (map (wire s) [nread s ..< nread s + n] @ rest) ! k = rx s k"
  by (simp add: nth_append rx_def)

lemma readBatteryInfo_decoded:
  "readBatteryInfo data s =
     (True,
      data\<lparr>romId := snprintf_c (romId data) 24
                 (format_romId (map (wire s) [nread s ..< nread s + 48])),
           manufacturingYear := rx s 10,
           manufacturingMonth := rx s 11,
           manufacturingDay := rx s 12,
           chargeCount :=
             (push_bit 8 (ucast (nibbleSwap (rx s 45))) OR ucast (nibbleSwap (rx s 44))) AND 0x0FFF,
           isLocked := (0 < rx s 38 AND 0x0F),
           statusCode := rx s 37,
           capacity := nibbleSwap (rx s 34),
           batteryType := nibbleSwap (rx s 29)\<rparr>,
      s\<lparr>enableLine := False,
        nread := nread s + 48,
        trace := trace s @ [DigitalWrite True, Delay 400] @
                 variantA_events (wire s) (nread s) READ_MSG_CMD 40 @ [DigitalWrite False]\<rparr>)"
proof -
  have tx: "cmdAndRead33 READ_MSG_CMD READ_MSG_LEN (replicate 48 0) READ_MSG_RESPONSE_LEN (enable s) =
      (True, map (wire s) [nread s ..< nread s + 48] @ [],
       (enable s)\<lparr>nread := nread s + 48,
         trace := trace (enable s) @ variantA_events (wire s) (nread s) READ_MSG_CMD 40\<rparr>)"
    using cmdAndRead33_result [of READ_MSG_LEN READ_MSG_CMD READ_MSG_RESPONSE_LEN "replicate 48 0" "enable s"]
    by (simp add: cmd_defs)
  show ?thesis
    unfolding readBatteryInfo_def readBatteryInfo_with_def Let_def tx
    by (simp add: rx_nth rx_def trace_emit_defs)
qed

lemma readBatteryData_decoded:
  "readBatteryData data s =
     (True,
      data\<lparr>packVoltage := push_bit 8 (ucast (rx s 1)) OR ucast (rx s 0),
           cell1Voltage := push_bit 8 (ucast (rx s 3)) OR ucast (rx s 2),
           cell2Voltage := push_bit 8 (ucast (rx s 5)) OR ucast (rx s 4),
           cell3Voltage := push_bit 8 (ucast (rx s 7)) OR ucast (rx s 6),
           cell4Voltage := push_bit 8 (ucast (rx s 9)) OR ucast (rx s 8),
           cell5Voltage := push_bit 8 (ucast (rx s 11)) OR ucast (rx s 10),
           tempSensor1 := push_bit 8 (ucast (rx s 15)) OR ucast (rx s 14),
           tempSensor2 := push_bit 8 (ucast (rx s 17)) OR ucast (rx s 16)\<rparr>,
      s\<lparr>enableLine := False,
        nread := nread s + 29,
        trace := trace s @ [DigitalWrite True, Delay 400] @
                 variantB_events (wire s) (nread s) READ_DATA_CMD 29 @ [DigitalWrite False]\<rparr>)"
proof -
  have tx: "cmdAndReadCC READ_DATA_CMD READ_DATA_LEN (replicate 32 0) READ_DATA_RESPONSE_LEN (enable s) =
      (True, map (wire s) [nread s ..< nread s + 29] @ replicate 3 0,
       (enable s)\<lparr>nread := nread s + 29,
         trace := trace (enable s) @ variantB_events (wire s) (nread s) READ_DATA_CMD 29\<rparr>)"
    using cmdAndReadCC_result [of READ_DATA_LEN READ_DATA_CMD READ_DATA_RESPONSE_LEN "replicate 32 0" "enable s"]
    by (simp add: cmd_defs)
  show ?thesis
    unfolding readBatteryData_def readBatteryData_with_def Let_def tx
    by (simp add: rx_nth rx_def trace_emit_defs)
qed

subsection \<open>Injected failures and pin levels\<close>

lemma failing_fails [simp]: "\<not> fst (failing tx cmd cmdLen rsp rspLen s)"
  by (simp add: failing_def case_prod_beta)

lemma failing_state [simp]:
  "snd (snd (failing tx cmd cmdLen rsp rspLen s)) = snd (snd (tx cmd cmdLen rsp rspLen s))"
  by (simp add: failing_def case_prod_beta)

subsection \<open>The buffers of the operations\<close>

lemma copy_loop_done: "\<not> i < 7 \<Longrightarrow> copy_loop i response mdl s = (mdl, s)"
  by (subst copy_loop.simps) simp

lemma copy_loop_step:
  "i < 7 \<Longrightarrow> i < length mdl \<Longrightarrow>
   copy_loop i response mdl s = copy_loop (Suc i) response (mdl[i := to_char (response ! i)]) s"
  by (subst copy_loop.simps) (simp add: store_def)

lemma copy_loop_buf_aux:
  "7 - i = n \<Longrightarrow> i \<le> 7 \<Longrightarrow> 7 \<le> length mdl \<Longrightarrow> 7 \<le> length response \<Longrightarrow>
   copy_loop i response mdl s =
     (take i mdl @ map to_char (take n (drop i response)) @ drop 7 mdl, s)"
proof (induction n arbitrary: i mdl)
  case 0
  then show ?case by (simp add: copy_loop_done)
next
  case (Suc n)
  then have lt: "i < 7" and rest: "7 - Suc i = n" and inb: "i < length mdl"
    and inr: "i < length response" by simp_all
  have le: "Suc i \<le> 7" using lt by simp
  have len: "7 \<le> length (mdl[i := to_char (response ! i)])" using Suc.prems by simp
  have dr: "drop i response = response ! i # drop (Suc i) response"
    using inr by (simp add: Cons_nth_drop_Suc)
  show ?case
    unfolding copy_loop_step [OF lt inb] Suc.IH [OF rest le len Suc.prems(4)]
    using inb lt by (simp add: dr take_Suc_conv_app_nth)
qed

lemma copy_loop_buf:
  "7 \<le> length mdl \<Longrightarrow> 7 \<le> length response \<Longrightarrow>
   copy_loop 0 response mdl s = (map to_char (take 7 response) @ drop 7 mdl, s)"
  using copy_loop_buf_aux [of 0 7 mdl response s] by simp

text \<open>
  \<open>readModel\<close> with a buffer of at least 8 characters: the first 7 response bytes as
  characters, then the terminator; the rest of the buffer is left as it was.
\<close>

lemma readModel_decoded:
  assumes "8 \<le> length mdl"
  shows "readModel mdl s =
     (True,
      map to_char (map (wire s) [nread s ..< nread s + 7]) @ NUL # drop 8 mdl,
      s\<lparr>enableLine := False,
        nread := nread s + 16,
        trace := trace s @ [DigitalWrite True, Delay 400] @
                 variantB_events (wire s) (nread s) MODEL_CMD 16 @ [DigitalWrite False]\<rparr>)"
proof -
  have tx: "cmdAndReadCC MODEL_CMD MODEL_CMD_LEN (replicate 32 0) MODEL_RESPONSE_LEN (enable s) =
      (True, map (wire s) [nread s ..< nread s + 16] @ replicate 16 0,
       (enable s)\<lparr>nread := nread s + 16,
         trace := trace (enable s) @ variantB_events (wire s) (nread s) MODEL_CMD 16\<rparr>)"
    using cmdAndReadCC_result [of MODEL_CMD_LEN MODEL_CMD MODEL_RESPONSE_LEN "replicate 32 0" "enable s"]
    by (simp add: cmd_defs)
  have tk: "take 7 (map (wire s) [nread s ..< nread s + 16] @ replicate 16 0) =
      map (wire s) [nread s ..< nread s + 7]"
    by (simp add: take_map)
  have m7: "7 \<le> length mdl" using assms by simp
  have st: "store (map to_char (map (wire s) [nread s ..< nread s + 7]) @ drop 7 mdl) 7 NUL s' =
      (map to_char (map (wire s) [nread s ..< nread s + 7]) @ NUL # drop 8 mdl, s')" for s'
  proof -
    let ?A = "map to_char (map (wire s) [nread s ..< nread s + 7])"
    have d: "drop 7 mdl = mdl ! 7 # drop 8 mdl"
      using assms Cons_nth_drop_Suc [of 7 mdl] by simp
    have la: "length ?A = 7" by simp
    have "(?A @ mdl ! 7 # drop 8 mdl)[7 := NUL] = ?A @ NUL # drop 8 mdl"
      using la by (metis list_update_length)
    moreover have "7 < length (?A @ mdl ! 7 # drop 8 mdl)"
      using la by simp
    ultimately show ?thesis
      unfolding d store_def by simp
  qed
  have cl: "copy_loop 0 (map (wire s) [nread s ..< nread s + 16] @ replicate 16 0) mdl s' =
      (map to_char (map (wire s) [nread s ..< nread s + 7]) @ drop 7 mdl, s')" for s'
    using copy_loop_buf [OF m7, of "map (wire s) [nread s ..< nread s + 16] @ replicate 16 0" s']
    unfolding tk by simp
  have fin: "disable ((enable s)\<lparr>nread := nread s + 16,
         trace := trace (enable s) @ variantB_events (wire s) (nread s) MODEL_CMD 16\<rparr>) =
      s\<lparr>enableLine := False,
        nread := nread s + 16,
        trace := trace s @ [DigitalWrite True, Delay 400] @
                 variantB_events (wire s) (nread s) MODEL_CMD 16 @ [DigitalWrite False]\<rparr>"
    by (simp add: trace_emit_defs)
  show ?thesis
    unfolding readModel_def readModel_with_def Let_def tx
    by (simp only: prod.case not_True_eq_False if_False cl st fin)
qed

lemma readModel_MODEL01:
  "fst (snd (readModel (replicate 16 (CHR ''?''))
      (started (\<lambda>k. [0x4D, 0x4F, 0x44, 0x45, 0x4C, 0x30, 0x31, 0x20, 0x20] ! min k 8)))) =
   ''MODEL01'' @ NUL # replicate 8 (CHR ''?'')"
proof -
  have "map to_char (map (\<lambda>k. [0x4D, 0x4F, 0x44, 0x45, 0x4C, 0x30, 0x31, 0x20, 0x20] ! min k 8)
      [0 ..< 0 + 7]) = ''MODEL01''"
    by code_simp
  then show ?thesis
    by (simp add: readModel_decoded started_fields del: upt_Suc)
qed

text \<open>
  The array \<open>response\<close> that \<open>readBatteryInfo\<close> and \<open>readBatteryData\<close> decode: its byte at
  index \<open>k\<close> is \<open>rx s k\<close>, for every index the transaction fills.
\<close>

lemma response_bytes:
  "k < 48 \<Longrightarrow>
   fst (snd (cmdAndRead33 READ_MSG_CMD READ_MSG_LEN (replicate 48 0) READ_MSG_RESPONSE_LEN (enable s))) ! k
     = rx s k"
  "k < 29 \<Longrightarrow>
   fst (snd (cmdAndReadCC READ_DATA_CMD READ_DATA_LEN (replicate 32 0) READ_DATA_RESPONSE_LEN (enable s))) ! k
     = rx s k"
proof -
  assume "k < 48"
  then show "fst (snd (cmdAndRead33 READ_MSG_CMD READ_MSG_LEN (replicate 48 0) READ_MSG_RESPONSE_LEN (enable s))) ! k
     = rx s k"
    using cmdAndRead33_result [of READ_MSG_LEN READ_MSG_CMD READ_MSG_RESPONSE_LEN "replicate 48 0" "enable s"]
    by (simp add: cmd_defs rx_def nth_append)
next
  assume "k < 29"
  then show "fst (snd (cmdAndReadCC READ_DATA_CMD READ_DATA_LEN (replicate 32 0) READ_DATA_RESPONSE_LEN (enable s))) ! k
     = rx s k"
    using cmdAndReadCC_result [of READ_DATA_LEN READ_DATA_CMD READ_DATA_RESPONSE_LEN "replicate 32 0" "enable s"]
    by (simp add: cmd_defs rx_def nth_append)
qed

subsection \<open>Runs inside and outside the buffers\<close>

lemma pinWrites_variant_events [simp]:
  "pinWrites (variantA_events w k cmd n) = []"
  "pinWrites (variantB_events w k cmd n) = []"
  by (simp_all add: variantA_events_def variantB_events_def)

text \<open>
  The three read operations of the library stay inside their buffers (\<open>readModel\<close> when
  the caller's buffer has room for the 8 characters it writes), and on these runs the
  enable line goes high first, low last, and is written nowhere in between.
\<close>

lemma read_operations_in_bounds:
  "in_bounds s (snd (snd (readBatteryInfo data s)))"
  "in_bounds s (snd (snd (readBatteryData data s)))"
  "8 \<le> length mdl \<Longrightarrow> in_bounds s (snd (snd (readModel mdl s)))"
  by (simp_all add: in_bounds_def readBatteryInfo_decoded readBatteryData_decoded
      readModel_decoded)

lemma read_operations_bracket:
  "gate_bracket s (snd (snd (readBatteryInfo data s)))"
  "gate_bracket s (snd (snd (readBatteryData data s)))"
  "8 \<le> length mdl \<Longrightarrow> gate_bracket s (snd (snd (readModel mdl s)))"
proof -
  show "gate_bracket s (snd (snd (readBatteryInfo data s)))"
    by (rule gate_bracketI [where ev = "variantA_events (wire s) (nread s) READ_MSG_CMD 40"])
       (simp_all add: readBatteryInfo_decoded)
  show "gate_bracket s (snd (snd (readBatteryData data s)))"
    by (rule gate_bracketI [where ev = "variantB_events (wire s) (nread s) READ_DATA_CMD 29"])
       (simp_all add: readBatteryData_decoded)
  show "gate_bracket s (snd (snd (readModel mdl s)))" if "8 \<le> length mdl"
    by (rule gate_bracketI [where ev = "variantB_events (wire s) (nread s) MODEL_CMD 16"])
       (simp_all add: readModel_decoded [OF that])
qed

text \<open>
  The first transaction of \<open>ledsOn\<close>, \<open>ledsOff\<close> and \<open>clearErrors\<close>: the test-mode command
  with the 16-byte array \<open>response\<close> and 9 response bytes asked for after the 8
  identifier bytes. Its last byte read, number 17, is stored at index 16, outside the
  array; nothing but the return follows that store.
\<close>

lemma testmode_transaction_state:
  "snd (snd (cmdAndRead33 TESTMODE_CMD TESTMODE_LEN (replicate 16 0) 9 (enable s))) =
     s\<lparr>enableLine := True,
       nread := nread s + 17,
       trace := trace s @ [DigitalWrite True, Delay 400] @
                variantA_events (wire s) (nread s) TESTMODE_CMD 9,
       oob := oob s + 1\<rparr>"
proof -
  have t: "TESTMODE_LEN \<le> length TESTMODE_CMD" and tk: "take TESTMODE_LEN TESTMODE_CMD = TESTMODE_CMD"
    by (simp_all add: cmd_defs)
  show ?thesis
    by (simp add: cmdAndRead33_state [OF t] tk trace_emit_defs)
qed

lemma read_events_8:
  "read_events w k 8 =
     [DelayMicroseconds 90, BusRead (w k), DelayMicroseconds 90, BusRead (w (k + 1)),
      DelayMicroseconds 90, BusRead (w (k + 2)), DelayMicroseconds 90, BusRead (w (k + 3)),
      DelayMicroseconds 90, BusRead (w (k + 4)), DelayMicroseconds 90, BusRead (w (k + 5)),
      DelayMicroseconds 90, BusRead (w (k + 6)), DelayMicroseconds 90, BusRead (w (k + 7))]"
proof -
  have e: "(8 :: nat) = Suc (Suc (Suc (Suc (Suc (Suc (Suc (Suc 0)))))))" by simp
  have "read_events w k (Suc (Suc (Suc (Suc (Suc (Suc (Suc (Suc 0)))))))) =
     [DelayMicroseconds 90, BusRead (w k), DelayMicroseconds 90, BusRead (w (k + 1)),
      DelayMicroseconds 90, BusRead (w (k + 2)), DelayMicroseconds 90, BusRead (w (k + 3)),
      DelayMicroseconds 90, BusRead (w (k + 4)), DelayMicroseconds 90, BusRead (w (k + 5)),
      DelayMicroseconds 90, BusRead (w (k + 6)), DelayMicroseconds 90, BusRead (w (k + 7))]"
    by (simp add: numeral_eq_Suc)
  then show ?thesis by (simp only: e)
qed

lemma testmode_operations_oob:
  "oob (snd (ledsOn s)) = oob s + 2"
  "oob (snd (ledsOff s)) = oob s + 2"
  "oob (snd (clearErrors s)) = oob s + 2"
proof -
  have t: "TESTMODE_LEN \<le> length TESTMODE_CMD" and l: "LEDS_ON_LEN \<le> length LEDS_ON_CMD"
    and f: "LEDS_OFF_LEN \<le> length LEDS_OFF_CMD" and r: "RESET_ERROR_LEN \<le> length RESET_ERROR_CMD"
    by (simp_all add: cmd_defs)
  show "oob (snd (ledsOn s)) = oob s + 2"
    by (simp add: ledsOn_def ledsOn_with_def Let_def case_prod_beta
        cmdAndRead33_state [OF t] cmdAndRead33_state [OF l] trace_emit_defs)
  show "oob (snd (ledsOff s)) = oob s + 2"
    by (simp add: ledsOff_def ledsOff_with_def Let_def case_prod_beta
        cmdAndRead33_state [OF t] cmdAndRead33_state [OF f] trace_emit_defs)
  show "oob (snd (clearErrors s)) = oob s + 2"
    by (simp add: clearErrors_def clearErrors_with_def Let_def case_prod_beta
        cmdAndRead33_state [OF t] cmdAndRead33_state [OF r] trace_emit_defs)
qed

section \<open>The claims\<close>

text \<open>
  C7. For every byte \<open>b\<close>, \<open>nibbleSwap (nibbleSwap b) = b\<close>; \<open>nibbleSwap\<close> exchanges the
  two 4-bit halves: the low half of the result is the high half of \<open>b\<close>, and the high
  half of the result is the low half of \<open>b\<close>.
\<close>

theorem nibbleSwap_involution:
  "nibbleSwap (nibbleSwap b) = b \<and>
   nibbleSwap b AND 0x0F = drop_bit 4 b \<and>
   drop_bit 4 (nibbleSwap b) = b AND 0x0F"
proof -
  have "nibbleSwap (nibbleSwap b) = b"
    by (rule bit_word_eqI) (auto simp add: bit_nibbleSwap)
  moreover have "nibbleSwap b AND 0x0F = drop_bit 4 b"
    unfolding lo_mask
    by (rule bit_word_eqI)
       (auto simp add: bit_nibbleSwap bit_simps ac_simps dest: bit_imp_le_length)
  moreover have "drop_bit 4 (nibbleSwap b) = b AND 0x0F"
    unfolding lo_mask
    by (rule bit_word_eqI)
       (auto simp add: bit_nibbleSwap bit_simps ac_simps dest: bit_imp_le_length)
  ultimately show ?thesis by simp
qed

theorem nibbleSwap_involution_witness:
  "nibbleSwap (nibbleSwap 0xA7) = 0xA7 \<and> nibbleSwap 0xA7 = 0x7A"
  using nibbleSwap_involution [of "0xA7"] by (simp add: nibbleSwap_def)

text \<open>
  C4. A transaction with the \<open>0x33\<close> prefix, called with a command of at least \<open>cmdLen\<close>
  bytes, returns true and does, in this order and nothing else: one bus reset, the
  settle delay, the write of \<open>0x33\<close>, 8 byte reads, the write of each of the \<open>cmdLen\<close>
  command bytes in order, and \<open>rspLen\<close> byte reads, with a 90 microsecond delay before
  each byte. When the buffer has at least \<open>rspLen + 8\<close> bytes, its first \<open>8 + rspLen\<close>
  bytes are the bytes read, in the order read (the 8 identifier bytes at indices 0 to 7,
  the response at indices 8 to \<open>rspLen + 7\<close>); the rest of the buffer and the rest of
  the driver are as before.
\<close>

theorem cmdAndRead33_layout:
  assumes "cmdLen \<le> length cmd"
  shows "fst (cmdAndRead33 cmd cmdLen rsp rspLen s) = True \<and>
     trace (snd (snd (cmdAndRead33 cmd cmdLen rsp rspLen s))) =
       trace s @
       [BusReset, DelayMicroseconds 400, BusWrite 0x33] @
       read_events (wire s) (nread s) 8 @
       write_events (take cmdLen cmd) @
       read_events (wire s) (nread s + 8) rspLen \<and>
     (rspLen + 8 \<le> length rsp \<longrightarrow>
        cmdAndRead33 cmd cmdLen rsp rspLen s =
          (True,
           map (wire s) [nread s ..< nread s + (8 + rspLen)] @ drop (8 + rspLen) rsp,
           s\<lparr>nread := nread s + (8 + rspLen),
             trace := trace s @
               [BusReset, DelayMicroseconds 400, BusWrite 0x33] @
               read_events (wire s) (nread s) 8 @
               write_events (take cmdLen cmd) @
               read_events (wire s) (nread s + 8) rspLen\<rparr>))"
proof -
  have "trace (snd (snd (cmdAndRead33 cmd cmdLen rsp rspLen s))) =
       trace s @
       [BusReset, DelayMicroseconds 400, BusWrite 0x33] @
       read_events (wire s) (nread s) 8 @
       write_events (take cmdLen cmd) @
       read_events (wire s) (nread s + 8) rspLen"
    by (simp add: cmdAndRead33_state [OF assms] variantA_events_def)
  moreover have "rspLen + 8 \<le> length rsp \<longrightarrow>
        cmdAndRead33 cmd cmdLen rsp rspLen s =
          (True,
           map (wire s) [nread s ..< nread s + (8 + rspLen)] @ drop (8 + rspLen) rsp,
           s\<lparr>nread := nread s + (8 + rspLen),
             trace := trace s @
               [BusReset, DelayMicroseconds 400, BusWrite 0x33] @
               read_events (wire s) (nread s) 8 @
               write_events (take cmdLen cmd) @
               read_events (wire s) (nread s + 8) rspLen\<rparr>)"
    using cmdAndRead33_result [OF assms, of rspLen rsp s]
    by (simp add: variantA_events_def)
  ultimately show ?thesis by simp
qed

theorem cmdAndRead33_layout_witness:
  "cmdAndRead33 [0xDA, 0x31] 2 (replicate 12 0xEE) 2 (started of_nat) =
     (True, [0, 1, 2, 3, 4, 5, 6, 7, 8, 9, 0xEE, 0xEE],
      (started of_nat)\<lparr>nread := 10,
        trace := [PinModeOutput, DigitalWrite False,
          BusReset, DelayMicroseconds 400, BusWrite 0x33,
          DelayMicroseconds 90, BusRead 0, DelayMicroseconds 90, BusRead 1,
          DelayMicroseconds 90, BusRead 2, DelayMicroseconds 90, BusRead 3,
          DelayMicroseconds 90, BusRead 4, DelayMicroseconds 90, BusRead 5,
          DelayMicroseconds 90, BusRead 6, DelayMicroseconds 90, BusRead 7,
          DelayMicroseconds 90, BusWrite 0xDA, DelayMicroseconds 90, BusWrite 0x31,
          DelayMicroseconds 90, BusRead 8, DelayMicroseconds 90, BusRead 9]\<rparr>)"
proof -
  have up: "[0 ..< 10] = [0, 1, 2, 3, 4, 5, 6, 7, 8, 9 :: nat]"
    by (simp add: upt_rec)
  have st: "nread (started of_nat) = 0" "wire (started of_nat) = of_nat"
    "trace (started of_nat) = [PinModeOutput, DigitalWrite False]"
    by (simp_all add: started_fields)
  have c: "(2 :: nat) \<le> length [0xDA, 0x31 :: u8]" by simp
  have r: "(2 :: nat) + 8 \<le> length (replicate 12 (0xEE :: u8))" by simp
  show ?thesis
    using cmdAndRead33_layout [OF c, of "replicate 12 0xEE" 2 "started of_nat"] r
    by (simp add: st up write_events_def eval_nat_numeral)
qed

text \<open>
  C10. For every message passed to \<open>setError\<close>, of any length, the 64-byte buffer ends
  in NUL, the text \<open>getLastError\<close> returns is the message cut to its first 63
  characters, so it is at most 63 characters long, and in the buffer it is followed by
  a NUL.
\<close>

theorem setError_terminated:
  assumes "length (lastError s) = 64"
  shows "length (lastError (setError msg s)) = 64 \<and>
         lastError (setError msg s) ! 63 = NUL \<and>
         getLastError (setError msg s) = take 63 (c_str msg) \<and>
         length (getLastError (setError msg s)) \<le> 63 \<and>
         lastError (setError msg s) ! length (getLastError (setError msg s)) = NUL"
proof -
  let ?T = "take 63 (c_str msg @ replicate (63 - length (c_str msg)) NUL)"
  have len: "length ?T = 63" by simp
  have buf: "lastError (setError msg s) = ?T @ [NUL]"
    using assms by (simp add: setError_buffer)
  have a: "length (lastError (setError msg s)) = 64"
    unfolding buf using len by simp
  have b: "lastError (setError msg s) ! 63 = NUL"
    unfolding buf using len by (metis nth_append_length)
  have c: "getLastError (setError msg s) = take 63 (c_str msg)"
    by (rule getLastError_setError)
  have d: "length (getLastError (setError msg s)) \<le> 63"
    unfolding c by simp
  have e: "lastError (setError msg s) ! length (getLastError (setError msg s)) = NUL"
  proof (cases "length (c_str msg) < 63")
    case True
    then have "length (take 63 (c_str msg)) = length (c_str msg)" by simp
    moreover have "?T = c_str msg @ replicate (63 - length (c_str msg)) NUL"
      using True by simp
    then have "(?T @ [NUL]) ! length (c_str msg) = NUL"
      using True by (simp only: append_assoc nth_append_length_plus [of _ _ 0, simplified])
        (cases "63 - length (c_str msg)"; simp)
    ultimately show ?thesis unfolding c buf by simp
  next
    case False
    then have "length (take 63 (c_str msg)) = 63" by simp
    then show ?thesis unfolding c using b by simp
  qed
  from a b c d e show ?thesis by simp
qed

theorem setError_terminated_witness:
  "length (lastError (started of_nat)) = 64 \<and>
   getLastError (setError (replicate 100 (CHR ''a'')) (started of_nat)) = replicate 63 (CHR ''a'') \<and>
   lastError (setError (replicate 100 (CHR ''a'')) (started of_nat)) ! 63 = NUL \<and>
   length (lastError (setError (replicate 100 (CHR ''a'')) (started of_nat))) = 64"
proof -
  have l: "length (lastError (started of_nat)) = 64"
    by (simp add: started_fields)
  have c: "c_str (replicate 100 (CHR ''a'')) = replicate 100 (CHR ''a'')"
    by (rule c_str_id) (simp add: NUL_def)
  show ?thesis
    using l setError_terminated [OF l, of "replicate 100 (CHR ''a'')"]
    by (simp add: c)
qed

text \<open>
  C3. For every bus and every starting state, \<open>readBatteryInfo\<close> stores in \<open>chargeCount\<close>
  the value \<open>((nibbleSwap a << 8) | nibbleSwap b) & 0x0FFF\<close>, where \<open>a\<close> is byte 45 and
  \<open>b\<close> is byte 44 of the response; the value depends on these two bytes only and is at
  most 4095.
\<close>

theorem chargeCount_decoding:
  "chargeCount (fst (snd (readBatteryInfo data s))) =
     (push_bit 8 (ucast (nibbleSwap (rx s 45))) OR ucast (nibbleSwap (rx s 44))) AND 0x0FFF \<and>
   unat (chargeCount (fst (snd (readBatteryInfo data s)))) \<le> 4095"
proof -
  have "unat (x AND (0x0FFF :: u16)) \<le> 4095" for x
    using word_and_le1 [of x "0x0FFF", THEN word_le_nat_alt [THEN iffD1]] by simp
  then show ?thesis
    by (simp add: readBatteryInfo_decoded)
qed

theorem chargeCount_decoding_witness:
  "chargeCount (fst (snd (readBatteryInfo zeroData
      (started (\<lambda>k. if k = 45 then 0x21 else if k = 44 then 0x43 else 0xFF))))) = 0x0234"
  using chargeCount_decoding [of zeroData
      "started (\<lambda>k. if k = 45 then 0x21 else if k = 44 then 0x43 else 0xFF)"]
  by (simp add: rx_def started_fields nibbleSwap_def)

text \<open>
  C9. For every lock-status byte \<open>b\<close> (byte 38 of the response), \<open>readBatteryInfo\<close>
  sets \<open>isLocked\<close> to true if and only if \<open>(b & 0x0F) > 0\<close>.
\<close>

theorem isLocked_decoding:
  "isLocked (fst (snd (readBatteryInfo data s))) \<longleftrightarrow> 0 < (rx s 38 AND 0x0F)"
  by (simp add: readBatteryInfo_decoded)

theorem isLocked_decoding_witness:
  "\<not> isLocked (fst (snd (readBatteryInfo zeroData (started (\<lambda>k. 0x00))))) \<and>
   isLocked (fst (snd (readBatteryInfo zeroData (started (\<lambda>k. 0xF3))))) \<and>
   \<not> isLocked (fst (snd (readBatteryInfo zeroData (started (\<lambda>k. 0xF0)))))"
  using isLocked_decoding [of zeroData "started (\<lambda>k. 0x00)"]
    isLocked_decoding [of zeroData "started (\<lambda>k. 0xF3)"]
    isLocked_decoding [of zeroData "started (\<lambda>k. 0xF0)"]
  by (simp add: rx_def started_fields)

text \<open>
  C6, as the code has it. \<open>readBatteryInfo\<close> stores the capacity byte (byte 34 of the
  response) and the battery-type byte (byte 29) nibble-swapped; it stores the
  status-code byte (byte 37) as it was read, not swapped.
\<close>

theorem swapped_fields:
  "capacity (fst (snd (readBatteryInfo data s))) = nibbleSwap (rx s 34) \<and>
   batteryType (fst (snd (readBatteryInfo data s))) = nibbleSwap (rx s 29) \<and>
   statusCode (fst (snd (readBatteryInfo data s))) = rx s 37"
  by (simp add: readBatteryInfo_decoded)

theorem swapped_fields_witness:
  "capacity (fst (snd (readBatteryInfo zeroData (started (\<lambda>k. 0x12))))) = 0x21 \<and>
   batteryType (fst (snd (readBatteryInfo zeroData (started (\<lambda>k. 0x12))))) = 0x21 \<and>
   statusCode (fst (snd (readBatteryInfo zeroData (started (\<lambda>k. 0x12))))) = 0x12"
  using swapped_fields [of zeroData "started (\<lambda>k. 0x12)"]
  by (simp add: rx_def started_fields nibbleSwap_def)

text \<open>
  The claim as stated fails: when the status-code byte read from the bus is \<open>0x12\<close>, the
  status code stored is \<open>0x12\<close>, and its nibble swap is \<open>0x21\<close>.
\<close>

theorem statusCode_not_swapped:
  "statusCode (fst (snd (readBatteryInfo zeroData (started (\<lambda>k. 0x12))))) \<noteq>
     nibbleSwap (rx (started (\<lambda>k. 0x12)) 37)"
  by (simp add: readBatteryInfo_decoded rx_def started_fields nibbleSwap_def)

text \<open>
  C8. \<open>readBatteryData\<close> stores in each voltage field the unsigned 16-bit little-endian
  value of its byte pair and in each temperature field the signed 16-bit value of its
  byte pair, low byte first; \<open>littleEndian16 0x34 0x12 = 0x1234\<close> and
  \<open>littleEndianSigned16 0x00 0x80 = -32768\<close>.
\<close>

theorem readBatteryData_little_endian:
  "unat (packVoltage (fst (snd (readBatteryData data s)))) = littleEndian16 (rx s 0) (rx s 1) \<and>
   unat (cell1Voltage (fst (snd (readBatteryData data s)))) = littleEndian16 (rx s 2) (rx s 3) \<and>
   unat (cell2Voltage (fst (snd (readBatteryData data s)))) = littleEndian16 (rx s 4) (rx s 5) \<and>
   unat (cell3Voltage (fst (snd (readBatteryData data s)))) = littleEndian16 (rx s 6) (rx s 7) \<and>
   unat (cell4Voltage (fst (snd (readBatteryData data s)))) = littleEndian16 (rx s 8) (rx s 9) \<and>
   unat (cell5Voltage (fst (snd (readBatteryData data s)))) = littleEndian16 (rx s 10) (rx s 11) \<and>
   sint (tempSensor1 (fst (snd (readBatteryData data s)))) = littleEndianSigned16 (rx s 14) (rx s 15) \<and>
   sint (tempSensor2 (fst (snd (readBatteryData data s)))) = littleEndianSigned16 (rx s 16) (rx s 17) \<and>
   littleEndian16 0x34 0x12 = 0x1234 \<and>
   littleEndianSigned16 0x00 0x80 = - 32768"
proof -
  have "littleEndian16 0x34 0x12 = 0x1234"
    by (simp add: littleEndian16_def)
  moreover have "littleEndianSigned16 0x00 0x80 = - 32768"
    by (simp add: littleEndianSigned16_def littleEndian16_def)
  ultimately show ?thesis
    by (simp add: readBatteryData_decoded le16_unat le16_sint)
qed

theorem readBatteryData_little_endian_witness:
  "packVoltage (fst (snd (readBatteryData zeroData
      (started (\<lambda>k. if k = 0 then 0x34 else if k = 1 then 0x12 else if k = 15 then 0x80 else 0))))) = 0x1234 \<and>
   sint (tempSensor1 (fst (snd (readBatteryData zeroData
      (started (\<lambda>k. if k = 0 then 0x34 else if k = 1 then 0x12 else if k = 15 then 0x80 else 0)))))) = - 32768"
proof -
  let ?s = "started (\<lambda>k. if k = 0 then 0x34 else if k = 1 then 0x12 else if k = 15 then 0x80 else 0)"
  have v: "unat (packVoltage (fst (snd (readBatteryData zeroData ?s)))) = 0x1234"
    and t: "sint (tempSensor1 (fst (snd (readBatteryData zeroData ?s)))) = - 32768"
    using readBatteryData_little_endian [of zeroData ?s]
    by (simp_all add: rx_def started_fields littleEndian16_def littleEndianSigned16_def)
  have "unat (packVoltage (fst (snd (readBatteryData zeroData ?s)))) = unat (0x1234 :: u16)"
    using v by simp
  then have "packVoltage (fst (snd (readBatteryData zeroData ?s))) = 0x1234"
    by (simp only: word_unat_eq_iff)
  with t show ?thesis by simp
qed

text \<open>
  C2. If the transaction a read operation calls returns failure, whatever else it does,
  the operation returns false, the last error is the message of that operation, and the
  caller's model buffer or \<open>BatteryData\<close> comes back as it was passed.
\<close>

theorem read_failure_reported:
  "(\<not> fst (tx MODEL_CMD MODEL_CMD_LEN (replicate 32 0) MODEL_RESPONSE_LEN (enable s)) \<longrightarrow>
      fst (readModel_with tx mdl s) = False \<and>
      fst (snd (readModel_with tx mdl s)) = mdl \<and>
      getLastError (snd (snd (readModel_with tx mdl s))) = ''Failed to read model'') \<and>
   (\<not> fst (tx READ_MSG_CMD READ_MSG_LEN (replicate 48 0) READ_MSG_RESPONSE_LEN (enable s)) \<longrightarrow>
      fst (readBatteryInfo_with tx data s) = False \<and>
      fst (snd (readBatteryInfo_with tx data s)) = data \<and>
      getLastError (snd (snd (readBatteryInfo_with tx data s))) = ''Failed to read battery info'') \<and>
   (\<not> fst (tx READ_DATA_CMD READ_DATA_LEN (replicate 32 0) READ_DATA_RESPONSE_LEN (enable s)) \<longrightarrow>
      fst (readBatteryData_with tx data s) = False \<and>
      fst (snd (readBatteryData_with tx data s)) = data \<and>
      getLastError (snd (snd (readBatteryData_with tx data s))) = ''Failed to read battery data'')"
  by (simp add: readModel_with_def readBatteryInfo_with_def readBatteryData_with_def Let_def
      case_prod_beta getLastError_short NUL_def)

theorem read_failure_reported_witness:
  "\<not> fst (readModel_with (failing cmdAndReadCC) ''0123456789abcdef'' (started of_nat)) \<and>
   fst (snd (readModel_with (failing cmdAndReadCC) ''0123456789abcdef'' (started of_nat)))
     = ''0123456789abcdef'' \<and>
   getLastError (snd (snd (readModel_with (failing cmdAndReadCC) ''0123456789abcdef'' (started of_nat))))
     = ''Failed to read model'' \<and>
   fst (snd (readBatteryInfo_with (failing cmdAndRead33) zeroData (started of_nat))) = zeroData \<and>
   getLastError (snd (snd (readBatteryInfo_with (failing cmdAndRead33) zeroData (started of_nat))))
     = ''Failed to read battery info'' \<and>
   fst (snd (readBatteryData_with (failing cmdAndReadCC) zeroData (started of_nat))) = zeroData \<and>
   getLastError (snd (snd (readBatteryData_with (failing cmdAndReadCC) zeroData (started of_nat))))
     = ''Failed to read battery data''"
  using read_failure_reported [of "failing cmdAndReadCC" "started of_nat" "''0123456789abcdef''" zeroData]
    read_failure_reported [of "failing cmdAndRead33" "started of_nat" "''0123456789abcdef''" zeroData]
  by simp

text \<open>
  C1 fails on the code for three of the six operations. \<open>ledsOn\<close>, \<open>ledsOff\<close> and
  \<open>clearErrors\<close> declare \<open>uint8_t response[16]\<close> and ask their first transaction for 9
  response bytes after the 8 identifier bytes. On every call, with every battery on the
  bus, that transaction reads 17 bytes, the array still has its 16, and the last byte is
  stored at index 16, outside the array, while the enable line is high. From that store
  on the run has no defined behaviour, so none of the three operations has a run the
  language defines: that the line is driven low once before the operation returns
  cannot be said of them. (For the three read operations it holds: lemmas
  \<open>read_operations_in_bounds\<close> and \<open>read_operations_bracket\<close>.)
\<close>

theorem test_mode_operations_overrun:
  "length (fst (snd (cmdAndRead33 TESTMODE_CMD TESTMODE_LEN (replicate 16 0) 9 (enable s)))) = 16 \<and>
   nread (snd (snd (cmdAndRead33 TESTMODE_CMD TESTMODE_LEN (replicate 16 0) 9 (enable s)))) =
     nread s + 17 \<and>
   oob (snd (snd (cmdAndRead33 TESTMODE_CMD TESTMODE_LEN (replicate 16 0) 9 (enable s)))) =
     oob s + 1 \<and>
   enableLine (snd (snd (cmdAndRead33 TESTMODE_CMD TESTMODE_LEN (replicate 16 0) 9 (enable s)))) \<and>
   \<not> in_bounds s (snd (ledsOn s)) \<and>
   \<not> in_bounds s (snd (ledsOff s)) \<and>
   \<not> in_bounds s (snd (clearErrors s))"
  by (simp add: testmode_transaction_state testmode_operations_oob in_bounds_def)

theorem test_mode_operations_overrun_witness:
  "oob (started of_nat) = 0 \<and>
   oob (snd (snd (cmdAndRead33 TESTMODE_CMD TESTMODE_LEN (replicate 16 0) 9
      (enable (started of_nat))))) = 1 \<and>
   nread (snd (snd (cmdAndRead33 TESTMODE_CMD TESTMODE_LEN (replicate 16 0) 9
      (enable (started of_nat))))) = 17 \<and>
   \<not> in_bounds (started of_nat) (snd (ledsOn (started of_nat))) \<and>
   \<not> in_bounds (started of_nat) (snd (ledsOff (started of_nat))) \<and>
   \<not> in_bounds (started of_nat) (snd (clearErrors (started of_nat)))"
  using test_mode_operations_overrun [of "started of_nat"]
  by (simp add: started_fields)

text \<open>
  C5 fails on the code through the same defect. What \<open>ledsOn\<close> asks for is what the
  claim says: the transaction for \<open>D9 96 A5\<close>; if that one reports failure, the message
  "Failed to enter test mode", the line driven low and false returned, with no second
  transaction; otherwise the transaction for \<open>DA 31\<close>, and then the line driven low.
  But with the transaction of the library, the first of the two already leaves the
  array: after the enable line went high the bus sees the reset, \<open>0x33\<close>, 8 reads, the
  bytes \<open>D9 96 A5\<close> and 9 reads, and the ninth byte is stored at \<open>response[16]\<close> of a
  16-byte array (with room for 8 response bytes the same call stays inside). The run of
  \<open>ledsOn\<close> is undefined from there, on every call: the second transaction and the
  return value are not behaviour the language gives it.
\<close>

theorem ledsOn_response_overrun:
  "ledsOn_with tx s =
     (let r1 = tx [0xD9, 0x96, 0xA5] 3 (replicate 16 0) 9 (enable s)
      in if \<not> fst r1 then (False, setError ''Failed to enter test mode'' (disable (snd (snd r1))))
         else let r2 = tx [0xDA, 0x31] 2 (fst (snd r1)) 9 (snd (snd r1))
              in if \<not> fst r2 then (False, setError ''Failed to turn LEDs on'' (disable (snd (snd r2))))
                 else (True, disable (snd (snd r2)))) \<and>
   ledsOn s = ledsOn_with cmdAndRead33 s \<and>
   trace (snd (snd (cmdAndRead33 [0xD9, 0x96, 0xA5] 3 (replicate 16 0) 9 (enable s)))) =
     trace s @ [DigitalWrite True, Delay 400, BusReset, DelayMicroseconds 400, BusWrite 0x33] @
     read_events (wire s) (nread s) 8 @
     [DelayMicroseconds 90, BusWrite 0xD9, DelayMicroseconds 90, BusWrite 0x96,
      DelayMicroseconds 90, BusWrite 0xA5] @
     read_events (wire s) (nread s + 8) 9 \<and>
   in_bounds s (snd (snd (cmdAndRead33 [0xD9, 0x96, 0xA5] 3 (replicate 16 0) 8 (enable s)))) \<and>
   \<not> in_bounds s (snd (snd (cmdAndRead33 [0xD9, 0x96, 0xA5] 3 (replicate 16 0) 9 (enable s)))) \<and>
   \<not> in_bounds s (snd (ledsOn s))"
proof -
  have c: "[0xD9, 0x96, 0xA5] = TESTMODE_CMD" "3 = TESTMODE_LEN"
    "[0xDA, 0x31] = LEDS_ON_CMD" "2 = LEDS_ON_LEN"
    by (simp_all add: cmd_defs)
  have 1: "ledsOn_with tx s =
     (let r1 = tx [0xD9, 0x96, 0xA5] 3 (replicate 16 0) 9 (enable s)
      in if \<not> fst r1 then (False, setError ''Failed to enter test mode'' (disable (snd (snd r1))))
         else let r2 = tx [0xDA, 0x31] 2 (fst (snd r1)) 9 (snd (snd r1))
              in if \<not> fst r2 then (False, setError ''Failed to turn LEDs on'' (disable (snd (snd r2))))
                 else (True, disable (snd (snd r2))))"
    unfolding c by (simp add: ledsOn_with_def Let_def case_prod_beta)
  have 2: "ledsOn s = ledsOn_with cmdAndRead33 s"
    by (simp add: ledsOn_def)
  have 3: "trace (snd (snd (cmdAndRead33 [0xD9, 0x96, 0xA5] 3 (replicate 16 0) 9 (enable s)))) =
     trace s @ [DigitalWrite True, Delay 400, BusReset, DelayMicroseconds 400, BusWrite 0x33] @
     read_events (wire s) (nread s) 8 @
     [DelayMicroseconds 90, BusWrite 0xD9, DelayMicroseconds 90, BusWrite 0x96,
      DelayMicroseconds 90, BusWrite 0xA5] @
     read_events (wire s) (nread s + 8) 9"
    unfolding c testmode_transaction_state
    by (simp add: variantA_events_def write_events_def cmd_defs)
  have 4: "in_bounds s (snd (snd (cmdAndRead33 [0xD9, 0x96, 0xA5] 3 (replicate 16 0) 8 (enable s))))"
    using cmdAndRead33_result [of 3 "[0xD9, 0x96, 0xA5]" 8 "replicate 16 0" "enable s"]
    by (simp add: in_bounds_def)
  have 5: "\<not> in_bounds s (snd (snd (cmdAndRead33 [0xD9, 0x96, 0xA5] 3 (replicate 16 0) 9 (enable s))))"
    unfolding c testmode_transaction_state by (simp add: in_bounds_def)
  have 6: "\<not> in_bounds s (snd (ledsOn s))"
    by (simp add: in_bounds_def testmode_operations_oob)
  from 1 2 3 4 5 6 show ?thesis by (intro conjI)
qed

theorem ledsOn_response_overrun_witness:
  "\<not> in_bounds (started of_nat) (snd (ledsOn (started of_nat))) \<and>
   trace (snd (snd (cmdAndRead33 [0xD9, 0x96, 0xA5] 3 (replicate 16 0) 9 (enable (started of_nat))))) =
     [PinModeOutput, DigitalWrite False, DigitalWrite True, Delay 400,
      BusReset, DelayMicroseconds 400, BusWrite 0x33,
      DelayMicroseconds 90, BusRead 0, DelayMicroseconds 90, BusRead 1,
      DelayMicroseconds 90, BusRead 2, DelayMicroseconds 90, BusRead 3,
      DelayMicroseconds 90, BusRead 4, DelayMicroseconds 90, BusRead 5,
      DelayMicroseconds 90, BusRead 6, DelayMicroseconds 90, BusRead 7,
      DelayMicroseconds 90, BusWrite 0xD9, DelayMicroseconds 90, BusWrite 0x96,
      DelayMicroseconds 90, BusWrite 0xA5,
      DelayMicroseconds 90, BusRead 8, DelayMicroseconds 90, BusRead 9,
      DelayMicroseconds 90, BusRead 10, DelayMicroseconds 90, BusRead 11,
      DelayMicroseconds 90, BusRead 12, DelayMicroseconds 90, BusRead 13,
      DelayMicroseconds 90, BusRead 14, DelayMicroseconds 90, BusRead 15,
      DelayMicroseconds 90, BusRead 16]"
proof -
  note w = ledsOn_response_overrun [of "failing cmdAndRead33" "started of_nat"]
  have re: "read_events of_nat 0 8 @ rest =
      [DelayMicroseconds 90, BusRead 0, DelayMicroseconds 90, BusRead 1,
       DelayMicroseconds 90, BusRead 2, DelayMicroseconds 90, BusRead 3,
       DelayMicroseconds 90, BusRead 4, DelayMicroseconds 90, BusRead 5,
       DelayMicroseconds 90, BusRead 6, DelayMicroseconds 90, BusRead (7 :: u8)] @ rest" for rest
    by (simp add: read_events_8)
  have rn: "read_events of_nat 8 9 =
      [DelayMicroseconds 90, BusRead 8, DelayMicroseconds 90, BusRead 9,
       DelayMicroseconds 90, BusRead 10, DelayMicroseconds 90, BusRead 11,
       DelayMicroseconds 90, BusRead 12, DelayMicroseconds 90, BusRead 13,
       DelayMicroseconds 90, BusRead 14, DelayMicroseconds 90, BusRead 15,
       DelayMicroseconds 90, BusRead (16 :: u8)]"
    using read_events_add [of of_nat 8 8 1] by (simp add: read_events_8)
  from w have a: "\<not> in_bounds (started of_nat) (snd (ledsOn (started of_nat)))"
    by (elim conjE)
  from w have b: "trace (snd (snd (cmdAndRead33 [0xD9, 0x96, 0xA5] 3 (replicate 16 0) 9
        (enable (started of_nat))))) =
     trace (started of_nat) @
     [DigitalWrite True, Delay 400, BusReset, DelayMicroseconds 400, BusWrite 0x33] @
     read_events (wire (started of_nat)) (nread (started of_nat)) 8 @
     [DelayMicroseconds 90, BusWrite 0xD9, DelayMicroseconds 90, BusWrite 0x96,
      DelayMicroseconds 90, BusWrite 0xA5] @
     read_events (wire (started of_nat)) (nread (started of_nat) + 8) 9"
    by (elim conjE)
  show ?thesis
    unfolding b using a by (simp add: started_fields re rn)
qed

end
